theory Spec2Isabelle
  imports Main "HOL-Library.Multiset"
begin

section \<open>Python values and dictionaries\<close>

text \<open>
  The ETL job of \<^verbatim>\<open>ETL-Project/etl_script.py\<close> moves dictionaries of scalar values
  between its stages. The scalars that CSV and flat JSON sources deliver are modelled
  (\<^verbatim>\<open>None\<close>, strings, integers, booleans); floating-point numbers and nested
  containers are outside the model. A character of a text is a code point below 256, so
  the whitespace that \<^verbatim>\<open>str.strip\<close> removes is the ASCII whitespace, the next-line
  character and the no-break space.
\<close>

datatype pyval = PyNone | PyStr string | PyInt int | PyBool bool

datatype error =
    KeyError | AttributeError | IndexError | OSError | ParseError
  | MultipleObjectsFoundError | MapperRejected

text \<open>Truth value testing (\<^verbatim>\<open>if x\<close>, \<^verbatim>\<open>not x\<close>, \<^verbatim>\<open>x or y\<close>).\<close>

fun truthy :: "pyval \<Rightarrow> bool" where
  "truthy PyNone = False"
| "truthy (PyStr s) = (s \<noteq> [])"
| "truthy (PyInt i) = (i \<noteq> 0)"
| "truthy (PyBool b) = b"

text \<open>Equality of dictionary keys: \<^verbatim>\<open>True == 1\<close> and \<^verbatim>\<open>False == 0\<close>.\<close>

fun py_eq :: "pyval \<Rightarrow> pyval \<Rightarrow> bool" where
  "py_eq (PyInt i) (PyBool b) = (i = (if b then 1 else 0))"
| "py_eq (PyBool b) (PyInt i) = (i = (if b then 1 else 0))"
| "py_eq x y = (x = y)"

text \<open>\<^verbatim>\<open>str(x)\<close>, which is also what an f-string field renders.\<close>

fun digits :: "nat \<Rightarrow> string" where
  "digits n =
     (if n < 10 then [''0123456789'' ! n]
      else digits (n div 10) @ [''0123456789'' ! (n mod 10)])"

declare digits.simps [simp del]

definition str_of_int :: "int \<Rightarrow> string" where
  "str_of_int i = (if i < 0 then CHR ''-'' # digits (nat (- i)) else digits (nat i))"

fun py_str :: "pyval \<Rightarrow> string" where
  "py_str PyNone = ''None''"
| "py_str (PyStr s) = s"
| "py_str (PyInt i) = str_of_int i"
| "py_str (PyBool b) = (if b then ''True'' else ''False'')"

definition py_isspace :: "char \<Rightarrow> bool" where
  "py_isspace c =
     (c = CHR '' '' \<or> c = CHR 0x09 \<or> c = CHR 0x0A \<or> c = CHR 0x0B \<or> c = CHR 0x0C
      \<or> c = CHR 0x0D \<or> c = CHR 0x1C \<or> c = CHR 0x1D \<or> c = CHR 0x1E \<or> c = CHR 0x1F
      \<or> c = CHR 0x85 \<or> c = CHR 0xA0)"

definition strip :: "string \<Rightarrow> string" where
  "strip s = rev (dropWhile py_isspace (rev (dropWhile py_isspace s)))"

definition startswith :: "string \<Rightarrow> string \<Rightarrow> bool" where
  "startswith s p = (take (length p) s = p)"

text \<open>
  A record of fields is a dictionary with string keys. Python compares dictionaries
  without regard to order, and \<^verbatim>\<open>d.update(c)\<close> is the right-biased union, so a
  record is a finite map; \<^verbatim>\<open>c.get(k, d)\<close> is \<open>get_or\<close> and \<^verbatim>\<open>c.get(k)\<close> is
  \<open>get_none\<close>.
\<close>

type_synonym fields = "string \<rightharpoonup> pyval"

definition get_or :: "fields \<Rightarrow> string \<Rightarrow> pyval \<Rightarrow> pyval" where
  "get_or c k d = (case c k of None \<Rightarrow> d | Some v \<Rightarrow> v)"

definition get_none :: "fields \<Rightarrow> string \<Rightarrow> pyval" where
  "get_none c k = get_or c k PyNone"

section \<open>Transforming customers\<close>

text \<open>
  \<^verbatim>\<open>name = f"{c.get('first_name', '')} {c.get('last_name', '')}".strip()
         or c.get('company_name', '')\<close>
\<close>

definition customer_name :: "fields \<Rightarrow> pyval" where
  "customer_name c =
     (let composed =
            strip (py_str (get_or c ''first_name'' (PyStr [])) @ '' '' @
                   py_str (get_or c ''last_name'' (PyStr [])))
      in if composed \<noteq> [] then PyStr composed else get_or c ''company_name'' (PyStr []))"

text \<open>The dictionary literal handed to \<^verbatim>\<open>setdefault\<close>.\<close>

definition initial_customer :: "string \<Rightarrow> fields \<Rightarrow> fields" where
  "initial_customer key c =
     [''name'' \<mapsto> PyStr key,
      ''first_name'' \<mapsto> get_or c ''first_name'' (PyStr []),
      ''last_name'' \<mapsto> get_or c ''last_name'' (PyStr []),
      ''company_name'' \<mapsto> get_or c ''company_name'' (PyStr []),
      ''customer_type'' \<mapsto> get_or c ''customer_type'' (PyStr []),
      ''subscription_type'' \<mapsto> get_or c ''subscription_type'' (PyStr []),
      ''email'' \<mapsto> get_none c ''email'',
      ''phone_number'' \<mapsto> get_or c ''phone_number'' (PyStr []),
      ''dob'' \<mapsto> get_or c ''dob'' (PyStr []),
      ''sex'' \<mapsto> get_or c ''sex'' (PyStr [])]"

text \<open>
  The \<^verbatim>\<open>customers\<close> dictionary is iterated at the end, so it keeps its insertion
  order: an association list with one entry per key.
  \<^verbatim>\<open>customers.setdefault(key, init).update(c)\<close> updates the entry of \<open>key\<close> in place
  or appends a new one.
\<close>

fun setdefault_update ::
  "string \<Rightarrow> fields \<Rightarrow> fields \<Rightarrow> (string \<times> fields) list \<Rightarrow> (string \<times> fields) list" where
  "setdefault_update key init c [] = [(key, init ++ c)]"
| "setdefault_update key init c ((k, d) # rest) =
     (if k = key then (k, d ++ c) # rest else (k, d) # setdefault_update key init c rest)"

text \<open>
  The loop of \<open>transform_customers\<close>. A name that is true but not a string (a number
  or \<^verbatim>\<open>True\<close> as company name) has no \<^verbatim>\<open>strip\<close> method.
\<close>

fun customers_loop ::
  "fields list \<Rightarrow> (string \<times> fields) list \<Rightarrow> error + (string \<times> fields) list" where
  "customers_loop [] customers = Inr customers"
| "customers_loop (c # cs) customers =
     (let name = customer_name c in
      if \<not> truthy name then customers_loop cs customers
      else case name of
             PyStr s \<Rightarrow>
               customers_loop cs
                 (setdefault_update (strip s) (initial_customer (strip s) c) c customers)
           | _ \<Rightarrow> Inl AttributeError)"

definition transform_customers :: "fields list \<Rightarrow> fields list \<Rightarrow> error + fields list" where
  "transform_customers csv_data json_data =
     (case customers_loop (csv_data @ json_data) [] of
        Inl e \<Rightarrow> Inl e
      | Inr customers \<Rightarrow> Inr (map snd customers))"


section \<open>Joining billing records onto customers\<close>

text \<open>
  A dictionary whose keys are values of the records (names, identifiers): an association
  list in insertion order, looked up by Python's key equality. Assigning to a key that
  is present keeps its position and replaces its value.
\<close>

fun dict_get :: "(pyval \<times> 'v) list \<Rightarrow> pyval \<Rightarrow> 'v option" where
  "dict_get [] k = None"
| "dict_get ((k', v) # rest) k = (if py_eq k' k then Some v else dict_get rest k)"

fun dict_set :: "pyval \<Rightarrow> 'v \<Rightarrow> (pyval \<times> 'v) list \<Rightarrow> (pyval \<times> 'v) list" where
  "dict_set k v [] = [(k, v)]"
| "dict_set k v ((k', v') # rest) =
     (if py_eq k' k then (k', v) # rest else (k', v') # dict_set k v rest)"

text \<open>
  The comprehension \<^verbatim>\<open>{b[field]: b for b in records}\<close>; \<^verbatim>\<open>b[field]\<close> raises
  \<^verbatim>\<open>KeyError\<close> when a record has no such field.
\<close>

fun index_by ::
  "string \<Rightarrow> fields list \<Rightarrow> (pyval \<times> fields) list \<Rightarrow> error + (pyval \<times> fields) list" where
  "index_by field [] d = Inr d"
| "index_by field (b # bs) d =
     (case b field of
        None \<Rightarrow> Inl KeyError
      | Some k \<Rightarrow> index_by field bs (dict_set k b d))"

text \<open>The body of the loop of \<open>transform_customers_with_billing\<close>.\<close>

definition attach_billing :: "(pyval \<times> fields) list \<Rightarrow> fields \<Rightarrow> error + fields" where
  "attach_billing billing_map cust =
     (case cust ''name'' of
        None \<Rightarrow> Inl KeyError
      | Some name \<Rightarrow>
          (let b = (case dict_get billing_map name of None \<Rightarrow> Map.empty | Some r \<Rightarrow> r) in
           Inr (cust ++
             [''phone_number'' \<mapsto>
                (if truthy (get_none cust ''phone_number'') then get_none cust ''phone_number''
                 else get_or b ''phone_number'' (PyStr [])),
              ''payment_method'' \<mapsto> get_or b ''payment_method'' (PyStr []),
              ''street'' \<mapsto> get_or b ''street'' (PyStr []),
              ''city'' \<mapsto> get_or b ''city'' (PyStr []),
              ''postcode'' \<mapsto> get_or b ''postcode'' (PyStr []),
              ''card_number'' \<mapsto> get_or b ''card_number'' (PyStr []),
              ''card_cvv'' \<mapsto> get_or b ''card_cvv'' (PyStr [])])))"

fun billing_loop :: "(pyval \<times> fields) list \<Rightarrow> fields list \<Rightarrow> error + fields list" where
  "billing_loop billing_map [] = Inr []"
| "billing_loop billing_map (cust # rest) =
     (case attach_billing billing_map cust of
        Inl e \<Rightarrow> Inl e
      | Inr cust' \<Rightarrow>
          (case billing_loop billing_map rest of
             Inl e \<Rightarrow> Inl e
           | Inr rest' \<Rightarrow> Inr (cust' # rest')))"

definition transform_customers_with_billing ::
  "fields list \<Rightarrow> fields list \<Rightarrow> error + fields list" where
  "transform_customers_with_billing basic billing =
     (case index_by ''name'' billing [] of
        Inl e \<Rightarrow> Inl e
      | Inr billing_map \<Rightarrow> billing_loop billing_map basic)"

section \<open>Transforming employees\<close>

text \<open>
  \<^verbatim>\<open>int(value)\<close> on a string: surrounding whitespace, an optional sign, and decimal
  digits that single underscores may separate, at most 4300 of them. The whitespace of
  \<^verbatim>\<open>int\<close> is not that of \<^verbatim>\<open>strip\<close>: it leaves the four separator characters
  \<^verbatim>\<open>\x1c\<close> to \<^verbatim>\<open>\x1f\<close> in place.
\<close>

definition int_isspace :: "char \<Rightarrow> bool" where
  "int_isspace c =
     (c = CHR '' '' \<or> c = CHR 0x09 \<or> c = CHR 0x0A \<or> c = CHR 0x0B \<or> c = CHR 0x0C
      \<or> c = CHR 0x0D \<or> c = CHR 0x85 \<or> c = CHR 0xA0)"

definition is_digit :: "char \<Rightarrow> bool" where
  "is_digit c = (48 \<le> (of_char c :: nat) \<and> (of_char c :: nat) \<le> 57)"

fun digit_groups :: "bool \<Rightarrow> string \<Rightarrow> bool" where
  "digit_groups after_digit [] = after_digit"
| "digit_groups after_digit (c # cs) =
     (if is_digit c then digit_groups True cs
      else if c = CHR ''_'' \<and> after_digit then digit_groups False cs
      else False)"

definition parse_nat :: "string \<Rightarrow> nat option" where
  "parse_nat s =
     (if digit_groups False s \<and> length (filter is_digit s) \<le> 4300
      then Some (foldl (\<lambda>n c. 10 * n + (of_char c - 48)) 0 (filter is_digit s))
      else None)"

definition int_of_string :: "string \<Rightarrow> int option" where
  "int_of_string s =
     (case rev (dropWhile int_isspace (rev (dropWhile int_isspace s))) of
        [] \<Rightarrow> None
      | c # cs \<Rightarrow>
          if c = CHR ''-'' then map_option (\<lambda>n. - int n) (parse_nat cs)
          else if c = CHR ''+'' then map_option int (parse_nat cs)
          else map_option int (parse_nat (c # cs)))"

text \<open>
  \<^verbatim>\<open>safe_int(value, default=0)\<close>: \<^verbatim>\<open>int(None)\<close> raises \<^verbatim>\<open>TypeError\<close> and a
  malformed string \<^verbatim>\<open>ValueError\<close>; both give the default.
\<close>

fun safe_int :: "pyval \<Rightarrow> int" where
  "safe_int PyNone = 0"
| "safe_int (PyStr s) = (case int_of_string s of None \<Rightarrow> 0 | Some i \<Rightarrow> i)"
| "safe_int (PyInt i) = i"
| "safe_int (PyBool b) = (if b then 1 else 0)"

definition lower_char :: "char \<Rightarrow> char" where
  "lower_char c =
     (if 65 \<le> (of_char c :: nat) \<and> (of_char c :: nat) \<le> 90
      then char_of ((of_char c :: nat) + 32) else c)"

definition lower :: "string \<Rightarrow> string" where
  "lower s = map lower_char s"

text \<open>What the job writes to its log and to standard output.\<close>

datatype message =
    MissingFile string
  | FailedToParseXml
  | SkippingEmployee fields
  | CustomersLoaded nat nat
  | EmployeesLoaded nat nat

text \<open>
  The record built for one employee whose identifier is present.
  \<^verbatim>\<open>emp.get('retired', 'false').lower()\<close> needs a string.
\<close>

definition employee_info ::
  "(pyval \<times> fields) list \<Rightarrow> (pyval \<times> fields) list \<Rightarrow> fields \<Rightarrow> pyval \<Rightarrow> error + fields" where
  "employee_info vehicle_dict salary_dict emp employee_id =
     (let first = get_or emp ''first_name'' (PyStr ''Unknown'');
          last = get_or emp ''last_name'' (PyStr ''Unknown'');
          full_name = py_str first @ '' '' @ py_str last
      in case get_or emp ''retired'' (PyStr ''false'') of
           PyStr retired \<Rightarrow>
             (let vehicle_info =
                    (case dict_get vehicle_dict (PyStr full_name) of
                       None \<Rightarrow> Map.empty | Some v \<Rightarrow> v);
                  salary_info =
                    (case dict_get salary_dict employee_id of
                       None \<Rightarrow> Map.empty | Some s \<Rightarrow> s)
              in Inr
                [''employee_id'' \<mapsto> employee_id,
                 ''first_name'' \<mapsto> first,
                 ''last_name'' \<mapsto> last,
                 ''role'' \<mapsto> get_or emp ''role'' (PyStr ''Unknown''),
                 ''department'' \<mapsto> get_or emp ''department'' (PyStr ''Unknown''),
                 ''age'' \<mapsto> PyInt (safe_int (get_none emp ''age'')),
                 ''retired'' \<mapsto> PyBool (lower retired = ''true''),
                 ''dependants'' \<mapsto> PyInt (safe_int (get_or emp ''dependants'' (PyInt 0))),
                 ''marital_status'' \<mapsto> get_or emp ''marital_status'' (PyStr []),
                 ''vehicle_registration'' \<mapsto> get_or vehicle_info ''RegistrationNumber'' (PyStr []),
                 ''vehicle_make'' \<mapsto> get_or vehicle_info ''Make'' (PyStr []),
                 ''vehicle_model'' \<mapsto> get_or vehicle_info ''Model'' (PyStr []),
                 ''vehicle_year'' \<mapsto> get_or vehicle_info ''Year'' (PyInt 0),
                 ''salary'' \<mapsto> get_or salary_info ''salary'' (PyInt 0),
                 ''pension'' \<mapsto> get_or salary_info ''pension'' (PyInt 0),
                 ''commute_distance'' \<mapsto> get_or salary_info ''commute_distance'' (PyInt 0)])
         | _ \<Rightarrow> Inl AttributeError)"

text \<open>
  The loop over \<^verbatim>\<open>employee_csv\<close>: the printed lines, and the list built or the
  exception that ended the loop.
\<close>

fun employees_loop ::
  "(pyval \<times> fields) list \<Rightarrow> (pyval \<times> fields) list \<Rightarrow> fields list \<Rightarrow>
     message list \<times> (error + fields list)" where
  "employees_loop vehicle_dict salary_dict [] = ([], Inr [])"
| "employees_loop vehicle_dict salary_dict (emp # rest) =
     (let employee_id = get_or emp ''employee_id'' (PyStr []) in
      if \<not> truthy employee_id
      then (case employees_loop vehicle_dict salary_dict rest of
              (out, r) \<Rightarrow> (SkippingEmployee emp # out, r))
      else (case employee_info vehicle_dict salary_dict emp employee_id of
              Inl e \<Rightarrow> ([], Inl e)
            | Inr info \<Rightarrow>
                (case employees_loop vehicle_dict salary_dict rest of
                   (out, Inl e) \<Rightarrow> (out, Inl e)
                 | (out, Inr infos) \<Rightarrow> (out, Inr (info # infos)))))"

text \<open>The salary dictionary is keyed by \<^verbatim>\<open>str(s['employee_id'])\<close>.\<close>

fun index_salaries ::
  "fields list \<Rightarrow> (pyval \<times> fields) list \<Rightarrow> error + (pyval \<times> fields) list" where
  "index_salaries [] d = Inr d"
| "index_salaries (s # ss) d =
     (case s ''employee_id'' of
        None \<Rightarrow> Inl KeyError
      | Some k \<Rightarrow> index_salaries ss (dict_set (PyStr (py_str k)) s d))"

definition transform_employees ::
  "fields list \<Rightarrow> fields list \<Rightarrow> fields list \<Rightarrow> message list \<times> (error + fields list)" where
  "transform_employees employee_csv vehicle_data salary_data =
     (case index_by ''FullName'' vehicle_data [] of
        Inl e \<Rightarrow> ([], Inl e)
      | Inr vehicle_dict \<Rightarrow>
          (case index_salaries salary_data [] of
             Inl e \<Rightarrow> ([], Inl e)
           | Inr salary_dict \<Rightarrow> employees_loop vehicle_dict salary_dict employee_csv))"


section \<open>Attaching flagged prompts\<close>

text \<open>
  A prompt record is serialised, so the order of its keys is kept: an association list.
  \<open>json_dumps\<close> is \<^verbatim>\<open>json.dumps\<close> with its default separators and
  \<^verbatim>\<open>ensure_ascii\<close>, on a list of such records.
\<close>

type_synonym pydict = "(string \<times> pyval) list"

definition hex_digit :: "nat \<Rightarrow> char" where
  "hex_digit n = ''0123456789abcdef'' ! (n mod 16)"

definition json_escape_char :: "char \<Rightarrow> string" where
  "json_escape_char c =
     (let n = (of_char c :: nat) in
      if n = 0x22 then [CHR 0x5C, CHR 0x22]
      else if n = 0x5C then [CHR 0x5C, CHR 0x5C]
      else if n = 0x0A then [CHR 0x5C, CHR ''n'']
      else if n = 0x0D then [CHR 0x5C, CHR ''r'']
      else if n = 0x09 then [CHR 0x5C, CHR ''t'']
      else if n = 0x08 then [CHR 0x5C, CHR ''b'']
      else if n = 0x0C then [CHR 0x5C, CHR ''f'']
      else if 32 \<le> n \<and> n \<le> 126 then [c]
      else [CHR 0x5C, CHR ''u'', hex_digit (n div 4096), hex_digit (n div 256),
            hex_digit (n div 16), hex_digit n])"

definition json_string :: "string \<Rightarrow> string" where
  "json_string s = CHR 0x22 # concat (map json_escape_char s) @ [CHR 0x22]"

fun json_value :: "pyval \<Rightarrow> string" where
  "json_value PyNone = ''null''"
| "json_value (PyStr s) = json_string s"
| "json_value (PyInt i) = str_of_int i"
| "json_value (PyBool b) = (if b then ''true'' else ''false'')"

fun join :: "string \<Rightarrow> string list \<Rightarrow> string" where
  "join sep [] = []"
| "join sep [x] = x"
| "join sep (x # y # ys) = x @ sep @ join sep (y # ys)"

definition json_object :: "pydict \<Rightarrow> string" where
  "json_object d =
     ''{'' @ join '', '' (map (\<lambda>(k, v). json_string k @ '': '' @ json_value v) d) @ ''}''"

definition json_dumps :: "pydict list \<Rightarrow> string" where
  "json_dumps ps = ''['' @ join '', '' (map json_object ps) @ '']''"

text \<open>\<^verbatim>\<open>by_id.setdefault(p['employee_id'], []).append(p)\<close> for every prompt.\<close>

fun group_prompts ::
  "pydict list \<Rightarrow> (pyval \<times> pydict list) list \<Rightarrow> error + (pyval \<times> pydict list) list" where
  "group_prompts [] by_id = Inr by_id"
| "group_prompts (p # ps) by_id =
     (case map_of p ''employee_id'' of
        None \<Rightarrow> Inl KeyError
      | Some k \<Rightarrow>
          group_prompts ps
            (dict_set k ((case dict_get by_id k of None \<Rightarrow> [] | Some items \<Rightarrow> items) @ [p])
               by_id))"

text \<open>
  \<^verbatim>\<open>emp['flagged_prompts'] = json.dumps(by_id.get(emp['employee_id'], []))\<close>
\<close>

definition flag_employee :: "(pyval \<times> pydict list) list \<Rightarrow> fields \<Rightarrow> error + fields" where
  "flag_employee by_id emp =
     (case emp ''employee_id'' of
        None \<Rightarrow> Inl KeyError
      | Some k \<Rightarrow>
          Inr (emp(''flagged_prompts'' \<mapsto>
                 PyStr (json_dumps (case dict_get by_id k of None \<Rightarrow> [] | Some items \<Rightarrow> items)))))"

fun flag_loop :: "(pyval \<times> pydict list) list \<Rightarrow> fields list \<Rightarrow> error + fields list" where
  "flag_loop by_id [] = Inr []"
| "flag_loop by_id (emp # rest) =
     (case flag_employee by_id emp of
        Inl e \<Rightarrow> Inl e
      | Inr emp' \<Rightarrow>
          (case flag_loop by_id rest of
             Inl e \<Rightarrow> Inl e
           | Inr rest' \<Rightarrow> Inr (emp' # rest')))"

definition merge_flagged_prompts :: "fields list \<Rightarrow> pydict list \<Rightarrow> error + fields list" where
  "merge_flagged_prompts employees prompts =
     (case group_prompts prompts [] of
        Inl e \<Rightarrow> Inl e
      | Inr by_id \<Rightarrow> flag_loop by_id employees)"

section \<open>Extracting the sources\<close>

text \<open>
  The file system gives, for a path, no file, a file that cannot be opened, or the text
  of the file. The parsers of the standard library (\<^verbatim>\<open>csv.DictReader\<close>,
  \<^verbatim>\<open>json.load\<close>, \<^verbatim>\<open>ElementTree.parse\<close>, \<^verbatim>\<open>readlines\<close>) are parameters of the
  model; each may raise on the text it is given.
\<close>

datatype file_state = NoSuchFile | Unreadable | Content string

datatype xml =
  Element (elem_tag: string) (elem_attrib: "(string \<times> string) list")
    (elem_text: "string option") (elem_children: "xml list")

record parsers =
  csv_DictReader :: "string \<Rightarrow> error + fields list"
  json_load :: "string \<Rightarrow> error + fields list"
  ET_parse :: "string \<Rightarrow> error + xml"
  readlines :: "string \<Rightarrow> string list"

text \<open>What \<open>extract_file\<close> returns: \<^verbatim>\<open>None\<close>, a list of rows or lines, or a tree.\<close>

datatype item = Row fields | Line string

datatype extracted = ExNone | ExList "item list" | ExRoot xml

definition extract_file ::
  "parsers \<Rightarrow> (string \<Rightarrow> file_state) \<Rightarrow> string \<Rightarrow> string \<Rightarrow> message list \<times> (error + extracted)" where
  "extract_file ps fs file_path file_type =
     (case fs file_path of
        NoSuchFile \<Rightarrow>
          ([MissingFile file_path], Inr (if file_type = ''xml'' then ExNone else ExList []))
      | Unreadable \<Rightarrow> ([], Inl OSError)
      | Content f \<Rightarrow>
          ([],
           if file_type = ''csv''
           then (case csv_DictReader ps f of Inl e \<Rightarrow> Inl e | Inr rows \<Rightarrow> Inr (ExList (map Row rows)))
           else if file_type = ''json''
           then (case json_load ps f of Inl e \<Rightarrow> Inl e | Inr rows \<Rightarrow> Inr (ExList (map Row rows)))
           else if file_type = ''xml''
           then (case ET_parse ps f of Inl e \<Rightarrow> Inl e | Inr root \<Rightarrow> Inr (ExRoot root))
           else if file_type = ''txt''
           then Inr (ExList (map Line (readlines ps f)))
           else Inr ExNone))"

text \<open>\<^verbatim>\<open>extract_file(path, ...) or []\<close>, read as rows or as lines.\<close>

fun rows_of :: "item list \<Rightarrow> fields list" where
  "rows_of [] = []"
| "rows_of (Row r # xs) = r # rows_of xs"
| "rows_of (Line l # xs) = rows_of xs"

fun lines_of :: "item list \<Rightarrow> string list" where
  "lines_of [] = []"
| "lines_of (Line l # xs) = l # lines_of xs"
| "lines_of (Row r # xs) = lines_of xs"

definition or_empty :: "extracted \<Rightarrow> item list" where
  "or_empty x = (case x of ExList xs \<Rightarrow> xs | _ \<Rightarrow> [])"

definition extract_rows ::
  "parsers \<Rightarrow> (string \<Rightarrow> file_state) \<Rightarrow> string \<Rightarrow> string \<Rightarrow> message list \<times> (error + fields list)" where
  "extract_rows ps fs path file_type =
     (case extract_file ps fs path file_type of
        (log, Inl e) \<Rightarrow> (log, Inl e)
      | (log, Inr x) \<Rightarrow> (log, Inr (rows_of (or_empty x))))"

definition extract_customers_csv where
  "extract_customers_csv ps fs path = extract_rows ps fs path ''csv''"

definition extract_customers_json where
  "extract_customers_json ps fs path = extract_rows ps fs path ''json''"

definition extract_file_json where
  "extract_file_json ps fs path = extract_rows ps fs path ''json''"

text \<open>The part of ElementTree the extractors use.\<close>

definition findall :: "string \<Rightarrow> xml \<Rightarrow> xml list" where
  "findall t e = filter (\<lambda>c. elem_tag c = t) (elem_children e)"

fun find_path :: "string list \<Rightarrow> xml list \<Rightarrow> xml list" where
  "find_path [] es = es"
| "find_path (t # ts) es = find_path ts (concat (map (findall t) es))"

definition findtext :: "string list \<Rightarrow> pyval \<Rightarrow> xml \<Rightarrow> pyval" where
  "findtext path dflt e =
     (case find_path path [e] of
        [] \<Rightarrow> dflt
      | x # _ \<Rightarrow> PyStr (case elem_text x of None \<Rightarrow> [] | Some t \<Rightarrow> t))"

definition billing_record :: "xml \<Rightarrow> fields" where
  "billing_record cust =
     (let composed =
            strip (py_str (findtext [''FirstName''] (PyStr []) cust) @ '' '' @
                   py_str (findtext [''LastName''] (PyStr []) cust))
      in [''name'' \<mapsto>
            (if composed \<noteq> [] then PyStr composed
             else findtext [''CompanyName''] (PyStr []) cust),
          ''phone_number'' \<mapsto> findtext [''PhoneNo''] (PyStr []) cust,
          ''payment_method'' \<mapsto> findtext [''PaymentMethod''] (PyStr []) cust,
          ''street'' \<mapsto> findtext [''BillingAddress'', ''Street''] (PyStr []) cust,
          ''city'' \<mapsto> findtext [''BillingAddress'', ''City''] (PyStr []) cust,
          ''postcode'' \<mapsto> findtext [''BillingAddress'', ''Postcode''] (PyStr []) cust,
          ''card_number'' \<mapsto> findtext [''CardDetails'', ''CardNumber''] (PyStr []) cust,
          ''card_cvv'' \<mapsto> findtext [''CardDetails'', ''CVV''] (PyStr []) cust])"

definition extract_customers_billing ::
  "parsers \<Rightarrow> (string \<Rightarrow> file_state) \<Rightarrow> string \<Rightarrow> message list \<times> (error + fields list)" where
  "extract_customers_billing ps fs path =
     (case extract_file ps fs path ''xml'' of
        (log, Inl e) \<Rightarrow> (log, Inl e)
      | (log, Inr (ExRoot root)) \<Rightarrow> (log, Inr (map billing_record (findall ''Customer'' root)))
      | (log, Inr _) \<Rightarrow> (log, Inr []))"

definition xml_get :: "xml \<Rightarrow> string \<Rightarrow> string \<Rightarrow> string" where
  "xml_get e k dflt = (case map_of (elem_attrib e) k of None \<Rightarrow> dflt | Some v \<Rightarrow> v)"

definition vehicle_records :: "xml \<Rightarrow> fields list" where
  "vehicle_records employee =
     (let full_name = xml_get employee ''FirstName'' ''Unknown'' @ '' '' @
                      xml_get employee ''SecondName'' ''Unknown''
      in case findall ''VehicleInfo'' employee of
           [] \<Rightarrow> []
         | vehicle_info # _ \<Rightarrow>
             [[''FullName'' \<mapsto> PyStr full_name,
               ''RegistrationNumber'' \<mapsto> findtext [''RegistrationNumber''] PyNone vehicle_info,
               ''Make'' \<mapsto> findtext [''Make''] PyNone vehicle_info,
               ''Model'' \<mapsto> findtext [''Model''] PyNone vehicle_info,
               ''Year'' \<mapsto> PyInt (safe_int (findtext [''Year''] PyNone vehicle_info))]])"

text \<open>
  \<^verbatim>\<open>if not root\<close> holds for \<^verbatim>\<open>None\<close> and for an element without children.
\<close>

definition extract_vehicles ::
  "parsers \<Rightarrow> (string \<Rightarrow> file_state) \<Rightarrow> string \<Rightarrow> message list \<times> (error + fields list)" where
  "extract_vehicles ps fs file_path =
     (case extract_file ps fs file_path ''xml'' of
        (log, Inl e) \<Rightarrow> (log, Inl e)
      | (log, Inr (ExRoot root)) \<Rightarrow>
          (if elem_children root = [] then (log @ [FailedToParseXml], Inr [])
           else (log, Inr (concat (map vehicle_records (findall ''Employee'' root)))))
      | (log, Inr _) \<Rightarrow> (log @ [FailedToParseXml], Inr []))"


section \<open>Extracting flagged prompts\<close>

text \<open>
  \<^verbatim>\<open>line.split(":", 1)[1]\<close>: the text after the first colon; there is no element 1
  when the line has no colon.
\<close>

definition after_colon :: "string \<Rightarrow> error + string" where
  "after_colon line =
     (case dropWhile (\<lambda>c. c \<noteq> CHR '':'') line of
        [] \<Rightarrow> Inl IndexError
      | _ # rest \<Rightarrow> Inr rest)"

text \<open>
  \<^verbatim>\<open>current_id\<close> is \<^verbatim>\<open>None\<close> or a string; an entry of \<^verbatim>\<open>by_id\<close> lists the
  timestamp and prompt of each flagged prompt of one employee.
\<close>

definition is_current :: "string option \<Rightarrow> bool" where
  "is_current current_id = (case current_id of None \<Rightarrow> False | Some i \<Rightarrow> i \<noteq> [])"

definition set_last_prompt :: "string \<Rightarrow> (string \<times> string) list \<Rightarrow> error + (string \<times> string) list" where
  "set_last_prompt p items =
     (if items = [] then Inl IndexError
      else Inr (butlast items @ [(fst (last items), p)]))"

fun prompts_loop ::
  "string list \<Rightarrow> (pyval \<times> (string \<times> string) list) list \<Rightarrow> string option \<Rightarrow>
     error + (pyval \<times> (string \<times> string) list) list" where
  "prompts_loop [] by_id current_id = Inr by_id"
| "prompts_loop (raw # rest) by_id current_id =
     (let line = strip raw in
      if startswith line ''Employee ID:'' then
        (case after_colon line of
           Inl e \<Rightarrow> Inl e
         | Inr v \<Rightarrow>
             prompts_loop rest
               (case dict_get by_id (PyStr (strip v)) of
                  None \<Rightarrow> dict_set (PyStr (strip v)) [] by_id
                | Some _ \<Rightarrow> by_id)
               (Some (strip v)))
      else if startswith line ''Timestamp:'' \<and> is_current current_id then
        (case dict_get by_id (PyStr (the current_id)) of
           None \<Rightarrow> Inl KeyError
         | Some items \<Rightarrow>
             (case after_colon line of
                Inl e \<Rightarrow> Inl e
              | Inr v \<Rightarrow>
                  prompts_loop rest
                    (dict_set (PyStr (the current_id)) (items @ [(strip v, [])]) by_id)
                    current_id))
      else if startswith line ''Prompt:'' \<and> is_current current_id then
        (case after_colon line of
           Inl e \<Rightarrow> Inl e
         | Inr v \<Rightarrow>
             (case dict_get by_id (PyStr (the current_id)) of
                None \<Rightarrow> Inl KeyError
              | Some items \<Rightarrow>
                  (case set_last_prompt (strip v) items of
                     Inl e \<Rightarrow> Inl e
                   | Inr items' \<Rightarrow>
                       prompts_loop rest (dict_set (PyStr (the current_id)) items' by_id)
                         current_id)))
      else prompts_loop rest by_id current_id)"

text \<open>\<^verbatim>\<open>{'employee_id': eid, **p}\<close> for every entry of every identifier.\<close>

definition prompt_records :: "(pyval \<times> (string \<times> string) list) list \<Rightarrow> pydict list" where
  "prompt_records by_id =
     concat (map (\<lambda>(eid, items).
       map (\<lambda>(t, p). [(''employee_id'', eid), (''timestamp'', PyStr t), (''prompt'', PyStr p)])
         items) by_id)"

definition flagged_prompts_of_lines :: "string list \<Rightarrow> error + pydict list" where
  "flagged_prompts_of_lines lines =
     (case prompts_loop lines [] None of
        Inl e \<Rightarrow> Inl e
      | Inr by_id \<Rightarrow> Inr (prompt_records by_id))"

definition extract_flagged_prompts ::
  "parsers \<Rightarrow> (string \<Rightarrow> file_state) \<Rightarrow> string \<Rightarrow> message list \<times> (error + pydict list)" where
  "extract_flagged_prompts ps fs path =
     (case extract_file ps fs path ''txt'' of
        (log, Inl e) \<Rightarrow> (log, Inl e)
      | (log, Inr x) \<Rightarrow> (log, flagged_prompts_of_lines (lines_of (or_empty x))))"

section \<open>Loading into the database\<close>

text \<open>
  A table is the list of its rows, in the order they were inserted; a row maps the
  attributes that were written to their values, and an attribute never written has the
  default of its column.

  The object-relational mapper checks every keyword and every value it is given. What it
  does with a value that is not \<^verbatim>\<open>None\<close> (it strips a string, reads a number, refuses
  a value of the wrong type) is a parameter of the model, \<open>convert\<close>, which gives the
  value as stored or nothing when the mapper raises. Two rules do not depend on it and
  are read off the entity declarations: a keyword that is not an attribute of the entity
  is refused, and \<^verbatim>\<open>None\<close> is refused unless the attribute is nullable. An optional
  attribute is nullable when it is declared so or when its type is not a string; a
  required attribute is not, and it refuses the empty string as well. The automatic
  primary key \<^verbatim>\<open>id\<close> of a customer is left out of the attributes: what the mapper does
  with a record that gives it depends on the keys already in the table.
\<close>

type_synonym table = "fields list"

type_synonym conversion = "string \<Rightarrow> pyval \<Rightarrow> pyval option"

record entity =
  attributes :: "string list"
  nullable :: "string list"
  required :: "string list"

definition Customer :: entity where
  "Customer =
     \<lparr>attributes =
        [''first_name'', ''last_name'', ''customer_type'', ''email'', ''subscription_type'',
         ''company_name'', ''phone_number'', ''dob'', ''sex'', ''payment_method'', ''street'',
         ''city'', ''postcode'', ''card_number'', ''card_cvv'', ''name''],
      nullable = [''city'', ''card_number'', ''card_cvv''],
      required = [''name'']\<rparr>"

definition Employee :: entity where
  "Employee =
     \<lparr>attributes =
        [''employee_id'', ''first_name'', ''last_name'', ''role'', ''department'', ''age'',
         ''retired'', ''dependants'', ''marital_status'', ''vehicle_registration'',
         ''vehicle_make'', ''vehicle_model'', ''vehicle_year'', ''salary'', ''pension'',
         ''commute_distance'', ''flagged_prompts''],
      nullable =
        [''age'', ''retired'', ''dependants'', ''vehicle_year'', ''salary'', ''pension'',
         ''commute_distance''],
      required = [''employee_id'']\<rparr>"

text \<open>The value the mapper stores for a keyword of an entity, or nothing when it raises.\<close>

definition mapper_value :: "entity \<Rightarrow> conversion \<Rightarrow> conversion" where
  "mapper_value E convert attr v =
     (if attr \<notin> set (attributes E) then None
      else if v = PyNone then (if attr \<in> set (nullable E) then Some PyNone else None)
      else case convert attr v of
             None \<Rightarrow> None
           | Some w \<Rightarrow> if attr \<in> set (required E) \<and> w = PyStr [] then None else Some w)"

text \<open>
  A record is accepted when every keyword it gives is; it is stored with each value as
  the mapper stores it.
\<close>

definition accepted :: "conversion \<Rightarrow> fields \<Rightarrow> bool" where
  "accepted conv c = (\<forall>k. case c k of None \<Rightarrow> True | Some v \<Rightarrow> conv k v \<noteq> None)"

definition stored :: "conversion \<Rightarrow> fields \<Rightarrow> fields" where
  "stored conv c = (\<lambda>k. case c k of None \<Rightarrow> None | Some v \<Rightarrow> conv k v)"

text \<open>
  Of the mapper the loaders use three operations. \<^verbatim>\<open>Entity.get(attr=v)\<close> is
  \<^verbatim>\<open>None\<close> when no row has the value, the row when one has, and raises when several
  have. Writing to the row that \<open>get\<close> found (\<^verbatim>\<open>existing.set(**c)\<close>,
  \<^verbatim>\<open>setattr(existing, key, val)\<close>) overwrites the attributes given, in the only row
  with that value. \<^verbatim>\<open>Entity(**c)\<close> appends a row. Each raises when the mapper refuses
  a keyword or a value.
\<close>

definition orm_get :: "conversion \<Rightarrow> string \<Rightarrow> pyval \<Rightarrow> table \<Rightarrow> error + fields option" where
  "orm_get conv attr v rows =
     (case conv attr v of
        None \<Rightarrow> Inl MapperRejected
      | Some k \<Rightarrow>
          (case filter (\<lambda>r. r attr = Some k) rows of
             [] \<Rightarrow> Inr None
           | [r] \<Rightarrow> Inr (Some r)
           | _ \<Rightarrow> Inl MultipleObjectsFoundError))"

definition orm_set :: "conversion \<Rightarrow> string \<Rightarrow> pyval \<Rightarrow> fields \<Rightarrow> table \<Rightarrow> error + table" where
  "orm_set conv attr v c rows =
     (if accepted conv c
      then Inr (map (\<lambda>r. if r attr = conv attr v then r ++ stored conv c else r) rows)
      else Inl MapperRejected)"

definition orm_create :: "conversion \<Rightarrow> fields \<Rightarrow> table \<Rightarrow> error + table" where
  "orm_create conv c rows =
     (if accepted conv c then Inr (rows @ [stored conv c]) else Inl MapperRejected)"

text \<open>
  The body of the loop of \<open>load_customers\<close>, on the table and the two counters.
\<close>

definition load_customer ::
  "conversion \<Rightarrow> fields \<Rightarrow> table \<times> nat \<times> nat \<Rightarrow> error + table \<times> nat \<times> nat" where
  "load_customer convert c st =
     (case st of (rows, loaded, updated) \<Rightarrow>
        if \<not> truthy (get_none c ''name'') then Inr st
        else
          (case (if truthy (get_none c ''email'')
                 then orm_get (mapper_value Customer convert) ''email'' (get_none c ''email'') rows
                 else Inr None) of
             Inl e \<Rightarrow> Inl e
           | Inr (Some existing) \<Rightarrow>
               (case orm_set (mapper_value Customer convert) ''email'' (get_none c ''email'')
                       c rows of
                  Inl e \<Rightarrow> Inl e
                | Inr rows' \<Rightarrow> Inr (rows', loaded, updated + 1))
           | Inr None \<Rightarrow>
               (case orm_create (mapper_value Customer convert) c rows of
                  Inl e \<Rightarrow> Inl e
                | Inr rows' \<Rightarrow> Inr (rows', loaded + 1, updated))))"

fun load_customers_loop ::
  "conversion \<Rightarrow> fields list \<Rightarrow> table \<times> nat \<times> nat \<Rightarrow> error + table \<times> nat \<times> nat" where
  "load_customers_loop convert [] st = Inr st"
| "load_customers_loop convert (c # cs) st =
     (case load_customer convert c st of
        Inl e \<Rightarrow> Inl e
      | Inr st' \<Rightarrow> load_customers_loop convert cs st')"

text \<open>
  The session commits at the end; an exception leaves the table as it was.
\<close>

definition load_customers ::
  "conversion \<Rightarrow> fields list \<Rightarrow> table \<Rightarrow> error + table \<times> message list" where
  "load_customers convert customers rows =
     (case load_customers_loop convert customers (rows, 0, 0) of
        Inl e \<Rightarrow> Inl e
      | Inr (rows', loaded, updated) \<Rightarrow> Inr (rows', [CustomersLoaded loaded updated]))"

definition load_employee ::
  "conversion \<Rightarrow> fields \<Rightarrow> table \<times> nat \<times> nat \<Rightarrow> error + table \<times> nat \<times> nat" where
  "load_employee convert e st =
     (case st of (rows, loaded, updated) \<Rightarrow>
        if \<not> truthy (get_none e ''employee_id'') then Inr st
        else
          (case orm_get (mapper_value Employee convert) ''employee_id''
                  (get_none e ''employee_id'') rows of
             Inl err \<Rightarrow> Inl err
           | Inr (Some existing) \<Rightarrow>
               (case orm_set (mapper_value Employee convert) ''employee_id''
                       (get_none e ''employee_id'') e rows of
                  Inl err \<Rightarrow> Inl err
                | Inr rows' \<Rightarrow> Inr (rows', loaded, updated + 1))
           | Inr None \<Rightarrow>
               (case orm_create (mapper_value Employee convert) e rows of
                  Inl err \<Rightarrow> Inl err
                | Inr rows' \<Rightarrow> Inr (rows', loaded + 1, updated))))"

fun load_employees_loop ::
  "conversion \<Rightarrow> fields list \<Rightarrow> table \<times> nat \<times> nat \<Rightarrow> error + table \<times> nat \<times> nat" where
  "load_employees_loop convert [] st = Inr st"
| "load_employees_loop convert (e # es) st =
     (case load_employee convert e st of
        Inl err \<Rightarrow> Inl err
      | Inr st' \<Rightarrow> load_employees_loop convert es st')"

definition load_employees ::
  "conversion \<Rightarrow> fields list \<Rightarrow> table \<Rightarrow> error + table \<times> message list" where
  "load_employees convert employees rows =
     (case load_employees_loop convert employees (rows, 0, 0) of
        Inl e \<Rightarrow> Inl e
      | Inr (rows', loaded, updated) \<Rightarrow> Inr (rows', [EmployeesLoaded loaded updated]))"

section \<open>Properties of the customer transformation\<close>

text \<open>
  The key under which the loop files a record: the stripped name, for a record whose
  name is a non-empty string. \<open>name_ok\<close> holds when the name is a string or false, so
  that \<^verbatim>\<open>name.strip()\<close> is defined whenever it is reached.
\<close>

definition customer_key :: "fields \<Rightarrow> string option" where
  "customer_key c =
     (case customer_name c of
        PyStr s \<Rightarrow> if s \<noteq> [] then Some (strip s) else None
      | _ \<Rightarrow> None)"

definition name_ok :: "fields \<Rightarrow> bool" where
  "name_ok c = (case customer_name c of PyStr s \<Rightarrow> True | v \<Rightarrow> \<not> truthy v)"

text \<open>The entry a key has after the records \<open>cs\<close> are merged in, given what it was.\<close>

fun merged :: "string \<Rightarrow> fields list \<Rightarrow> fields option \<Rightarrow> fields option" where
  "merged k [] e = e"
| "merged k (c # cs) e =
     (if customer_key c = Some k
      then merged k cs (Some ((case e of None \<Rightarrow> initial_customer k c | Some d \<Rightarrow> d) ++ c))
      else merged k cs e)"

definition ann_csv :: fields where
  "ann_csv = [''first_name'' \<mapsto> PyStr ''Ann'', ''last_name'' \<mapsto> PyStr ''Lee'',
              ''email'' \<mapsto> PyStr ''ann@old.example'']"

definition ann_json :: fields where
  "ann_json = [''first_name'' \<mapsto> PyStr ''Ann'', ''last_name'' \<mapsto> PyStr ''Lee'',
               ''email'' \<mapsto> PyStr ''ann@new.example'',
               ''subscription_type'' \<mapsto> PyStr ''gold'']"

lemma fst_setdefault_update_old:
  "k \<in> fst ` set cs \<Longrightarrow> map fst (setdefault_update k i c cs) = map fst cs"
  by (induction cs) (auto simp: rev_image_eqI)

lemma fst_setdefault_update_new:
  "k \<notin> fst ` set cs \<Longrightarrow> map fst (setdefault_update k i c cs) = map fst cs @ [k]"
  by (induction cs) auto

lemma distinct_setdefault_update:
  "distinct (map fst cs) \<Longrightarrow> distinct (map fst (setdefault_update k i c cs))"
  by (cases "k \<in> fst ` set cs")
     (simp_all add: fst_setdefault_update_old fst_setdefault_update_new)

lemma map_of_setdefault_update:
  "map_of (setdefault_update k i c cs) =
     (map_of cs)(k \<mapsto> (case map_of cs k of None \<Rightarrow> i ++ c | Some d \<Rightarrow> d ++ c))"
  by (induction cs) (auto simp: fun_eq_iff)

lemma customers_loop_total:
  "list_all name_ok cs \<Longrightarrow> \<exists>out. customers_loop cs customers = Inr out"
  by (induction cs arbitrary: customers)
     (auto simp: name_ok_def Let_def split: pyval.splits)

lemma customers_loop_distinct:
  "customers_loop cs customers = Inr out \<Longrightarrow> distinct (map fst customers) \<Longrightarrow>
     distinct (map fst out)"
  by (induction cs arbitrary: customers)
     (auto simp: Let_def distinct_setdefault_update split: pyval.splits if_splits)

lemma customers_loop_entry:
  "customers_loop cs customers = Inr out \<Longrightarrow>
     map_of out k = merged k cs (map_of customers k)"
proof (induction cs arbitrary: customers)
  case Nil
  then show ?case by simp
next
  case (Cons c cs)
  show ?case
  proof (cases "truthy (customer_name c)")
    case False
    then have "customer_key c = None"
      by (auto simp: customer_key_def split: pyval.splits)
    with Cons False show ?thesis by (simp add: Let_def)
  next
    case True
    with Cons.prems obtain s where s: "customer_name c = PyStr s" "s \<noteq> []"
      by (auto simp: Let_def split: pyval.splits)
    then have key: "customer_key c = Some (strip s)" by (simp add: customer_key_def)
    from Cons.prems s have
      "customers_loop cs
         (setdefault_update (strip s) (initial_customer (strip s) c) c customers) = Inr out"
      by (simp add: Let_def)
    from Cons.IH [OF this] show ?thesis
      using key by (auto simp: map_of_setdefault_update split: option.splits)
  qed
qed

lemma merged_filter:
  "merged k cs e = merged k (filter (\<lambda>c. customer_key c = Some k) cs) e"
  by (induction cs arbitrary: e) auto

lemma customer_key_ann:
  "customer_key ann_csv = Some ''Ann Lee''" "customer_key ann_json = Some ''Ann Lee''"
  by (simp_all add: customer_key_def customer_name_def ann_csv_def ann_json_def get_or_def
      strip_def py_isspace_def)

lemma name_ok_ann: "name_ok ann_csv" "name_ok ann_json"
  by (simp_all add: name_ok_def customer_name_def ann_csv_def ann_json_def get_or_def
      strip_def py_isspace_def)

text \<open>
  Claim C2. When the CSV source has one record \<open>a\<close> and the JSON source one record \<open>b\<close>
  with the same name key \<open>k\<close>, and every name met is a string or empty,
  \<open>transform_customers\<close> completes and its dictionary holds exactly one entry for \<open>k\<close>
  (its keys are distinct). That entry is the initial record of \<open>a\<close>, updated with \<open>a\<close> and
  then with \<open>b\<close>: it has every field of \<open>b\<close> with the value of \<open>b\<close>, and every field of
  \<open>a\<close> that \<open>b\<close> lacks with the value of \<open>a\<close>.
\<close>

theorem transform_customers_merges_pair:
  assumes a: "filter (\<lambda>c. customer_key c = Some k) csv_data = [a]"
    and b: "filter (\<lambda>c. customer_key c = Some k) json_data = [b]"
    and ok: "list_all name_ok (csv_data @ json_data)"
  shows "\<exists>customers r.
           customers_loop (csv_data @ json_data) [] = Inr customers \<and>
           transform_customers csv_data json_data = Inr (map snd customers) \<and>
           distinct (map fst customers) \<and>
           map_of customers k = Some r \<and>
           r = initial_customer k a ++ a ++ b \<and>
           (\<forall>f v. b f = Some v \<longrightarrow> r f = Some v) \<and>
           (\<forall>f v. a f = Some v \<longrightarrow> b f = None \<longrightarrow> r f = Some v)"
proof -
  from customers_loop_total [OF ok] obtain customers where
    run: "customers_loop (csv_data @ json_data) [] = Inr customers" by blast
  have d: "distinct (map fst customers)"
    using customers_loop_distinct [OF run] by simp
  have "a \<in> set (filter (\<lambda>c. customer_key c = Some k) csv_data)"
    by (simp add: a)
  then have ka: "customer_key a = Some k" by simp
  have "b \<in> set (filter (\<lambda>c. customer_key c = Some k) json_data)"
    by (simp add: b)
  then have kb: "customer_key b = Some k" by simp
  have "map_of customers k = merged k (csv_data @ json_data) None"
    using customers_loop_entry [OF run, of k] by simp
  also have "\<dots> = merged k ([a] @ [b]) None"
    by (subst merged_filter) (simp add: a b)
  also have "\<dots> = Some (initial_customer k a ++ a ++ b)"
    using ka kb by simp
  finally have e: "map_of customers k = Some (initial_customer k a ++ a ++ b)" .
  have t: "transform_customers csv_data json_data = Inr (map snd customers)"
    by (simp add: transform_customers_def run)
  have f1: "\<forall>f v. b f = Some v \<longrightarrow> (initial_customer k a ++ a ++ b) f = Some v"
    by simp
  have f2: "\<forall>f v. a f = Some v \<longrightarrow> b f = None \<longrightarrow>
              (initial_customer k a ++ a ++ b) f = Some v"
    by (simp add: map_add_def)
  from run t d e f1 f2 show ?thesis by blast
qed

theorem transform_customers_merges_pair_witness:
  "\<exists>customers r.
      customers_loop ([ann_csv] @ [ann_json]) [] = Inr customers \<and>
      transform_customers [ann_csv] [ann_json] = Inr (map snd customers) \<and>
      map_of customers ''Ann Lee'' = Some r \<and>
      r ''email'' = Some (PyStr ''ann@new.example'') \<and>
      r ''subscription_type'' = Some (PyStr ''gold'') \<and>
      r ''name'' = Some (PyStr ''Ann Lee'')"
  using transform_customers_merges_pair
    [of "''Ann Lee''" "[ann_csv]" ann_csv "[ann_json]" ann_json]
  apply (simp add: customer_key_ann name_ok_ann)
  apply (elim exE conjE)
  apply (simp add: initial_customer_def ann_csv_def ann_json_def)
  done

text \<open>
  Claim C4. A record whose first and last name are absent and whose company name is a
  single space passes the test \<^verbatim>\<open>if not name\<close>, which is made before the name is
  stripped: \<open>transform_customers\<close> keeps it, under the empty key and with an empty
  name.
\<close>

theorem transform_customers_keeps_blank_company:
  "\<exists>r. transform_customers [[''company_name'' \<mapsto> PyStr '' '']] [] = Inr [r] \<and>
       r ''name'' = Some (PyStr []) \<and> r ''company_name'' = Some (PyStr '' '')"
  by (simp add: transform_customers_def customer_name_def get_or_def strip_def
      py_isspace_def initial_customer_def Let_def get_none_def)


section \<open>Properties of the employee transformation\<close>

text \<open>
  Key equality is an equivalence, so a dictionary read after a write gives the value
  written for every key equal to the one written, and the old value for the others.
\<close>

lemma py_eq_refl [simp]: "py_eq a a"
  by (cases a) auto

lemma py_eq_sym: "py_eq a b = py_eq b a"
  by (cases a; cases b) auto

lemma py_eq_trans: "py_eq a b \<Longrightarrow> py_eq b c \<Longrightarrow> py_eq a c"
  by (cases a; cases b; cases c) (auto split: if_splits)

lemma py_eq_PyStr [simp]: "py_eq (PyStr s) v = (v = PyStr s)" "py_eq v (PyStr s) = (v = PyStr s)"
  by (cases v; auto)+

lemma dict_get_dict_set:
  "dict_get (dict_set k v d) k' = (if py_eq k k' then Some v else dict_get d k')"
proof (induction d)
  case Nil
  then show ?case by simp
next
  case (Cons p d)
  obtain k0 v0 where p: "p = (k0, v0)" by (cases p)
  show ?case
  proof (cases "py_eq k0 k")
    case True
    then have "py_eq k0 k' = py_eq k k'"
      using py_eq_trans py_eq_sym by blast
    with True p show ?thesis by simp
  next
    case False
    have "py_eq k0 k' \<Longrightarrow> \<not> py_eq k k'"
      using False py_eq_trans py_eq_sym by blast
    with False p Cons show ?thesis by auto
  qed
qed

lemma index_by_total:
  "list_all (\<lambda>b. b f \<noteq> None) bs \<Longrightarrow> \<exists>d'. index_by f bs d = Inr d'"
  by (induction bs arbitrary: d) auto




definition has_id :: "fields \<Rightarrow> bool" where
  "has_id e = truthy (get_or e ''employee_id'' (PyStr []))"

definition retired_ok :: "fields \<Rightarrow> bool" where
  "retired_ok e = (case get_or e ''retired'' (PyStr ''false'') of PyStr s \<Rightarrow> True | _ \<Rightarrow> False)"

lemma employee_info_total:
  "retired_ok e \<Longrightarrow> \<exists>r. employee_info vd sd e i = Inr r"
  by (auto simp: retired_ok_def employee_info_def Let_def split: pyval.splits)

lemma employee_info_id:
  "employee_info vd sd e i = Inr r \<Longrightarrow> r ''employee_id'' = Some i"
  by (auto simp: employee_info_def Let_def split: pyval.splits)

lemma employees_loop_total:
  "list_all (\<lambda>e. has_id e \<longrightarrow> retired_ok e) es \<Longrightarrow> \<exists>out infos. employees_loop vd sd es = (out, Inr infos)"
proof (induction es)
  case Nil
  then show ?case by simp
next
  case (Cons e es)
  then obtain out infos where r: "employees_loop vd sd es = (out, Inr infos)" by auto
  show ?case
  proof (cases "has_id e")
    case True
    with Cons.prems have "retired_ok e" by simp
    from employee_info_total [OF this] obtain i where
      "employee_info vd sd e (get_or e ''employee_id'' (PyStr [])) = Inr i" by blast
    with True r show ?thesis by (simp add: has_id_def)
  next
    case False
    with r show ?thesis by (simp add: has_id_def)
  qed
qed

lemma employees_loop_result:
  "employees_loop vd sd es = (out, Inr infos) \<Longrightarrow>
     out = map SkippingEmployee (filter (\<lambda>e. \<not> has_id e) es) \<and>
     list_all2 (\<lambda>e r. employee_info vd sd e (get_or e ''employee_id'' (PyStr [])) = Inr r)
       (filter has_id es) infos"
proof (induction es arbitrary: out infos)
  case Nil
  then show ?case by simp
next
  case (Cons e es)
  obtain out' r' where r: "employees_loop vd sd es = (out', r')" by (cases "employees_loop vd sd es")
  show ?case
  proof (cases "has_id e")
    case True
    with Cons.prems r obtain i infos' where
      i: "employee_info vd sd e (get_or e ''employee_id'' (PyStr [])) = Inr i"
      and r': "r' = Inr infos'" and o: "out = out'" "infos = i # infos'"
      by (auto simp: has_id_def split: sum.splits)
    from Cons.IH [of out' infos'] r r' have
      "out' = map SkippingEmployee (filter (\<lambda>e. \<not> has_id e) es) \<and>
       list_all2 (\<lambda>e r. employee_info vd sd e (get_or e ''employee_id'' (PyStr [])) = Inr r)
         (filter has_id es) infos'" by simp
    with True i o show ?thesis by simp
  next
    case False
    with Cons.prems r have o: "out = SkippingEmployee e # out'" "r' = Inr infos"
      by (auto simp: has_id_def)
    from Cons.IH [of out' infos] r o have
      "out' = map SkippingEmployee (filter (\<lambda>e. \<not> has_id e) es) \<and>
       list_all2 (\<lambda>e r. employee_info vd sd e (get_or e ''employee_id'' (PyStr [])) = Inr r)
         (filter has_id es) infos" by simp
    with False o show ?thesis by simp
  qed
qed

definition csv_record :: "fields \<Rightarrow> bool" where
  "csv_record e = (\<forall>k v. e k = Some v \<longrightarrow> (\<exists>s. v = PyStr s))"

definition full_name :: "fields \<Rightarrow> string" where
  "full_name emp =
     py_str (get_or emp ''first_name'' (PyStr ''Unknown'')) @ '' '' @
     py_str (get_or emp ''last_name'' (PyStr ''Unknown''))"

lemma csv_record_retired_ok:
  assumes "csv_record e" shows "retired_ok e"
proof (cases "e ''retired''")
  case None
  then show ?thesis by (simp add: retired_ok_def get_or_def)
next
  case (Some v)
  with assms obtain s where "v = PyStr s" unfolding csv_record_def by blast
  with Some show ?thesis by (simp add: retired_ok_def get_or_def)
qed

lemma get_or_empty [simp]: "get_or Map.empty k d = d"
  by (simp add: get_or_def)




definition emp_ann :: fields where
  "emp_ann = [''employee_id'' \<mapsto> PyStr ''E1'', ''first_name'' \<mapsto> PyStr ''Ann'',
              ''last_name'' \<mapsto> PyStr ''Lee'', ''retired'' \<mapsto> PyStr ''True'']"

definition emp_noid :: fields where
  "emp_noid = [''first_name'' \<mapsto> PyStr ''Bob'']"



lemma csv_record_examples: "csv_record emp_ann" "csv_record emp_noid"
  by (auto simp: csv_record_def emp_ann_def emp_noid_def split: if_splits)

lemma has_id_examples: "has_id emp_ann" "\<not> has_id emp_noid"
  by (simp_all add: has_id_def emp_ann_def emp_noid_def get_or_def)



section \<open>Records without a name or an identifier\<close>

text \<open>
  \<open>plain\<close> holds for a customer record that brings no \<^verbatim>\<open>name\<close> field of its own and
  whose key is not empty; an entry of the \<^verbatim>\<open>customers\<close> dictionary is named when its
  \<^verbatim>\<open>name\<close> field is its key and the key is not empty.
\<close>

definition plain :: "fields \<Rightarrow> bool" where
  "plain c = (c ''name'' = None \<and> customer_key c \<noteq> Some [])"

definition named_entry :: "string \<times> fields \<Rightarrow> bool" where
  "named_entry e = (snd e ''name'' = Some (PyStr (fst e)) \<and> fst e \<noteq> [])"

lemma customers_loop_append:
  "customers_loop (xs @ ys) cu =
     (case customers_loop xs cu of Inl e \<Rightarrow> Inl e | Inr cu' \<Rightarrow> customers_loop ys cu')"
  by (induction xs arbitrary: cu) (simp_all add: Let_def split: pyval.splits)

lemma customers_loop_drop:
  "\<not> truthy (customer_name c) \<Longrightarrow>
     customers_loop (xs @ c # ys) cu = customers_loop (xs @ ys) cu"
  by (simp add: customers_loop_append Let_def split: sum.splits)

lemma initial_customer_name:
  "c ''name'' = None \<Longrightarrow> (initial_customer key c ++ c) ''name'' = Some (PyStr key)"
  by (simp add: initial_customer_def map_add_def)

lemma setdefault_update_named:
  "list_all named_entry cu \<Longrightarrow> c ''name'' = None \<Longrightarrow> key \<noteq> [] \<Longrightarrow>
     list_all named_entry (setdefault_update key (initial_customer key c) c cu)"
proof (induction cu)
  case Nil
  then show ?case by (simp add: named_entry_def initial_customer_name)
next
  case (Cons p cu)
  obtain k d where p: "p = (k, d)" by (cases p)
  show ?case
  proof (cases "k = key")
    case True
    with Cons.prems p show ?thesis by (simp add: named_entry_def map_add_def)
  next
    case False
    with Cons p show ?thesis by simp
  qed
qed

lemma customers_loop_named:
  "customers_loop cs cu = Inr out \<Longrightarrow> list_all plain cs \<Longrightarrow> list_all named_entry cu \<Longrightarrow>
     list_all named_entry out"
proof (induction cs arbitrary: cu)
  case Nil
  then show ?case by simp
next
  case (Cons c cs)
  show ?case
  proof (cases "truthy (customer_name c)")
    case False
    with Cons show ?thesis by (simp add: Let_def)
  next
    case True
    with Cons.prems obtain s where s: "customer_name c = PyStr s" "s \<noteq> []"
      by (auto simp: Let_def split: pyval.splits)
    from Cons.prems(2) s have k: "strip s \<noteq> []" "c ''name'' = None"
      by (simp_all add: plain_def customer_key_def)
    from Cons.prems s have
      "customers_loop cs
         (setdefault_update (strip s) (initial_customer (strip s) c) c cu) = Inr out"
      by (simp add: Let_def)
    moreover have "list_all plain cs" using Cons.prems by simp
    moreover have
      "list_all named_entry (setdefault_update (strip s) (initial_customer (strip s) c) c cu)"
      using Cons.prems(3) k by (simp add: setdefault_update_named)
    ultimately show ?thesis by (rule Cons.IH)
  qed
qed

definition ann_unnamed :: fields where
  "ann_unnamed = [''first_name'' \<mapsto> PyStr ''Ann'', ''name'' \<mapsto> PyStr []]"

lemma has_id_lookup:
  "has_id e \<Longrightarrow> e ''employee_id'' = Some (get_or e ''employee_id'' (PyStr []))"
  by (cases "e ''employee_id''") (simp_all add: has_id_def get_or_def)

lemma has_id_truthy:
  "r ''employee_id'' = Some i \<Longrightarrow> truthy i \<Longrightarrow> truthy (get_none r ''employee_id'')"
  by (simp add: get_none_def get_or_def)

lemma list_all2_ids:
  "list_all2 (\<lambda>e r. employee_info vd sd e (get_or e ''employee_id'' (PyStr [])) = Inr r) es infos
   \<Longrightarrow> list_all has_id es \<Longrightarrow>
   map (\<lambda>r. r ''employee_id'') infos = map (\<lambda>e. e ''employee_id'') es \<and>
   list_all (\<lambda>r. truthy (get_none r ''employee_id'')) infos"
proof (induction rule: list_all2_induct)
  case Nil
  then show ?case by simp
next
  case (Cons e es r infos)
  from Cons.hyps(1) have i: "r ''employee_id'' = Some (get_or e ''employee_id'' (PyStr []))"
    by (rule employee_info_id)
  from Cons.prems have h: "has_id e" and hs: "list_all has_id es" by simp_all
  from h have e: "e ''employee_id'' = Some (get_or e ''employee_id'' (PyStr []))"
    by (rule has_id_lookup)
  from h have "truthy (get_or e ''employee_id'' (PyStr []))" by (simp add: has_id_def)
  with i have t: "truthy (get_none r ''employee_id'')" by (rule has_id_truthy)
  from Cons.IH [OF hs] i e t show ?case by simp
qed

lemma transform_employees_loop:
  "transform_employees emps vehicles salaries = (out, Inr infos) \<Longrightarrow>
     \<exists>vd sd. employees_loop vd sd emps = (out, Inr infos)"
  unfolding transform_employees_def
  by (cases "index_by ''FullName'' vehicles []"; cases "index_salaries salaries []") auto

lemma transform_customers_loop:
  "transform_customers csv_data json_data = Inr rs \<Longrightarrow>
     \<exists>cu. customers_loop (csv_data @ json_data) [] = Inr cu \<and> rs = map snd cu"
  unfolding transform_customers_def
  by (cases "customers_loop (csv_data @ json_data) []") auto

lemma named_entries_truthy:
  "list_all named_entry cu \<Longrightarrow> list_all (\<lambda>r. truthy (get_none r ''name'')) (map snd cu)"
  by (induction cu) (simp_all add: named_entry_def get_none_def get_or_def)

text \<open>
  Claim C3, as the code has it. Every record \<open>transform_employees\<close> returns has a
  non-empty \<^verbatim>\<open>employee_id\<close>; the records returned are those of the rows with an
  identifier, in order, and one line is printed for each row without. A customer record
  whose derived name is empty is dropped: the result is the same as without it, in
  either source. When no record brings a \<^verbatim>\<open>name\<close> field of its own and no key is
  empty, every record \<open>transform_customers\<close> returns has a non-empty \<^verbatim>\<open>name\<close>.
  (\<open>transform_customers\<close> has no statement that prints or logs.)
\<close>

theorem transform_output_identified:
  "(transform_employees emps vehicles salaries = (out, Inr infos) \<longrightarrow>
       list_all (\<lambda>r. truthy (get_none r ''employee_id'')) infos \<and>
       map (\<lambda>r. r ''employee_id'') infos = map (\<lambda>e. e ''employee_id'') (filter has_id emps) \<and>
       out = map SkippingEmployee (filter (\<lambda>e. \<not> has_id e) emps)) \<and>
   (\<not> truthy (customer_name c) \<longrightarrow>
       transform_customers (xs @ c # ys) json_data = transform_customers (xs @ ys) json_data \<and>
       transform_customers csv_data (xs @ c # ys) = transform_customers csv_data (xs @ ys)) \<and>
   (transform_customers csv_data json_data = Inr rs \<and> list_all plain (csv_data @ json_data) \<longrightarrow>
       list_all (\<lambda>r. truthy (get_none r ''name'')) rs)"
proof (intro conjI impI)
  assume t: "transform_employees emps vehicles salaries = (out, Inr infos)"
  from transform_employees_loop [OF t] obtain vd sd where
    run: "employees_loop vd sd emps = (out, Inr infos)" by blast
  note res = employees_loop_result [OF run]
  from res show "out = map SkippingEmployee (filter (\<lambda>e. \<not> has_id e) emps)"
    by (rule conjunct1)
  have h: "list_all has_id (filter has_id emps)" by (simp add: list_all_iff)
  note ids = list_all2_ids [OF res [THEN conjunct2] h]
  from ids show "list_all (\<lambda>r. truthy (get_none r ''employee_id'')) infos"
    by (rule conjunct2)
  from ids show
    "map (\<lambda>r. r ''employee_id'') infos = map (\<lambda>e. e ''employee_id'') (filter has_id emps)"
    by (rule conjunct1)
next
  assume n: "\<not> truthy (customer_name c)"
  show "transform_customers (xs @ c # ys) json_data = transform_customers (xs @ ys) json_data"
    using customers_loop_drop [OF n, of xs "ys @ json_data" "[]"]
    by (simp add: transform_customers_def)
  show "transform_customers csv_data (xs @ c # ys) = transform_customers csv_data (xs @ ys)"
    using customers_loop_drop [OF n, of "csv_data @ xs" ys "[]"]
    by (simp add: transform_customers_def)
next
  assume a: "transform_customers csv_data json_data = Inr rs \<and> list_all plain (csv_data @ json_data)"
  from transform_customers_loop [OF a [THEN conjunct1]] obtain cu where
    run: "customers_loop (csv_data @ json_data) [] = Inr cu" and rs: "rs = map snd cu"
    by blast
  from run a [THEN conjunct2] have "list_all named_entry cu"
    by (rule customers_loop_named) simp
  then show "list_all (\<lambda>r. truthy (get_none r ''name'')) rs"
    unfolding rs by (rule named_entries_truthy)
qed

theorem transform_output_identified_witness:
  "(\<exists>infos. transform_employees [emp_noid, emp_ann] [] [] =
              ([SkippingEmployee emp_noid], Inr infos) \<and>
            map (\<lambda>r. r ''employee_id'') infos = [Some (PyStr ''E1'')] \<and>
            list_all (\<lambda>r. truthy (get_none r ''employee_id'')) infos) \<and>
   transform_customers ([] @ Map.empty # [ann_csv]) [ann_json] =
     transform_customers ([] @ [ann_csv]) [ann_json] \<and>
   (\<exists>rs. transform_customers [ann_csv] [ann_json] = Inr rs \<and>
         list_all (\<lambda>r. truthy (get_none r ''name'')) rs)"
proof -
  have "list_all (\<lambda>e. has_id e \<longrightarrow> retired_ok e) [emp_noid, emp_ann]"
    by (simp add: has_id_examples csv_record_retired_ok csv_record_examples)
  from employees_loop_total [OF this, of "[]" "[]"] obtain out infos where
    t: "transform_employees [emp_noid, emp_ann] [] [] = (out, Inr infos)"
    by (auto simp: transform_employees_def)
  have n: "\<not> truthy (customer_name Map.empty)"
    by (simp add: customer_name_def get_or_def strip_def py_isspace_def)
  have "list_all name_ok ([ann_csv] @ [ann_json])" by (simp add: name_ok_ann)
  from customers_loop_total [OF this, of "[]"] obtain rs where
    c: "transform_customers [ann_csv] [ann_json] = Inr rs"
    by (auto simp: transform_customers_def)
  have p: "list_all plain ([ann_csv] @ [ann_json])"
    by (simp add: plain_def customer_key_ann) (simp add: ann_csv_def ann_json_def)
  note th = transform_output_identified [of "[emp_noid, emp_ann]" "[]" "[]" out infos Map.empty "[]" "[ann_csv]"
      "[ann_json]" "[ann_csv]" rs]
  from th t have e: "out = [SkippingEmployee emp_noid]"
     "map (\<lambda>r. r ''employee_id'') infos = [Some (PyStr ''E1'')]"
     "list_all (\<lambda>r. truthy (get_none r ''employee_id'')) infos"
    by (simp_all add: has_id_examples) (simp add: emp_ann_def)
  from th n have d:
    "transform_customers ([] @ Map.empty # [ann_csv]) [ann_json] =
       transform_customers ([] @ [ann_csv]) [ann_json]"
    by blast
  from th c p have r: "list_all (\<lambda>r. truthy (get_none r ''name'')) rs" by blast
  from t e have A:
    "\<exists>infos. transform_employees [emp_noid, emp_ann] [] [] =
                ([SkippingEmployee emp_noid], Inr infos) \<and>
             map (\<lambda>r. r ''employee_id'') infos = [Some (PyStr ''E1'')] \<and>
             list_all (\<lambda>r. truthy (get_none r ''employee_id'')) infos"
    by (intro exI [of _ infos]) simp
  from c r have B:
    "\<exists>rs. transform_customers [ann_csv] [ann_json] = Inr rs \<and>
          list_all (\<lambda>r. truthy (get_none r ''name'')) rs"
    by (intro exI [of _ rs]) simp
  from A d B show ?thesis by (intro conjI)
qed


text \<open>
  A record with a first name and an empty \<^verbatim>\<open>name\<close> field of its own is filed under
  its first name, and \<^verbatim>\<open>update(c)\<close> then overwrites the name with the empty one.
\<close>

theorem transform_customers_empty_name_counterexample:
  "transform_customers [ann_unnamed] [] =
     Inr [initial_customer ''Ann'' ann_unnamed ++ ann_unnamed] \<and>
   (initial_customer ''Ann'' ann_unnamed ++ ann_unnamed) ''name'' = Some (PyStr [])"
  by (simp add: transform_customers_def customer_name_def get_or_def strip_def
      py_isspace_def Let_def ann_unnamed_def)


section \<open>Missing input files\<close>

definition no_parsers :: parsers where
  "no_parsers = \<lparr>csv_DictReader = (\<lambda>f. Inr []), json_load = (\<lambda>f. Inr []),
                  ET_parse = (\<lambda>f. Inl ParseError), readlines = (\<lambda>f. [])\<rparr>"

text \<open>
  Claim C6. For a path at which there is no file, \<open>extract_file\<close> logs the warning
  and returns the empty list, or \<^verbatim>\<open>None\<close> when the format is XML; it raises nothing.
  Every extractor of the pipeline then returns the empty list for that source (the
  vehicle extractor also prints its own line), so the run goes on with no data from it.
\<close>

theorem extract_file_missing:
  assumes "fs path = NoSuchFile"
  shows "extract_file ps fs path file_type =
           ([MissingFile path], Inr (if file_type = ''xml'' then ExNone else ExList [])) \<and>
         extract_rows ps fs path ''csv'' = ([MissingFile path], Inr []) \<and>
         extract_customers_csv ps fs path = ([MissingFile path], Inr []) \<and>
         extract_customers_json ps fs path = ([MissingFile path], Inr []) \<and>
         extract_file_json ps fs path = ([MissingFile path], Inr []) \<and>
         extract_customers_billing ps fs path = ([MissingFile path], Inr []) \<and>
         extract_vehicles ps fs path = ([MissingFile path, FailedToParseXml], Inr []) \<and>
         extract_flagged_prompts ps fs path = ([MissingFile path], Inr [])"
proof -
  have f: "extract_file ps fs path t =
             ([MissingFile path], Inr (if t = ''xml'' then ExNone else ExList []))" for t
    using assms by (simp add: extract_file_def)
  have r: "extract_rows ps fs path t = ([MissingFile path], Inr [])" for t
    by (simp add: extract_rows_def f or_empty_def)
  have p: "flagged_prompts_of_lines [] = Inr []"
    by (simp add: flagged_prompts_of_lines_def prompt_records_def)
  show ?thesis
    by (simp add: f r p extract_customers_csv_def extract_customers_json_def
        extract_file_json_def extract_customers_billing_def extract_vehicles_def
        extract_flagged_prompts_def or_empty_def)
qed

theorem extract_file_missing_witness:
  "extract_file no_parsers (\<lambda>p. NoSuchFile) ''employees.csv'' ''csv'' =
     ([MissingFile ''employees.csv''], Inr (ExList [])) \<and>
   extract_file no_parsers (\<lambda>p. NoSuchFile) ''billing.xml'' ''xml'' =
     ([MissingFile ''billing.xml''], Inr ExNone) \<and>
   extract_customers_billing no_parsers (\<lambda>p. NoSuchFile) ''billing.xml'' =
     ([MissingFile ''billing.xml''], Inr []) \<and>
   extract_flagged_prompts no_parsers (\<lambda>p. NoSuchFile) ''flagged_prompts.txt'' =
     ([MissingFile ''flagged_prompts.txt''], Inr [])"
  using extract_file_missing [of "\<lambda>p. NoSuchFile" "''employees.csv''" no_parsers "''csv''"]
    extract_file_missing [of "\<lambda>p. NoSuchFile" "''billing.xml''" no_parsers "''xml''"]
    extract_file_missing [of "\<lambda>p. NoSuchFile" "''flagged_prompts.txt''" no_parsers "''txt''"]
  by simp

section \<open>Properties of the billing join\<close>

lemma dict_get_cong: "py_eq k k' \<Longrightarrow> dict_get d k = dict_get d k'"
proof (induction d)
  case Nil
  then show ?case by simp
next
  case (Cons p d)
  obtain k0 v0 where p: "p = (k0, v0)" by (cases p)
  from Cons.prems have "py_eq k0 k = py_eq k0 k'"
    using py_eq_trans py_eq_sym by blast
  with Cons p show ?case by simp
qed

text \<open>The billing record that the billing map holds for a name: the last one equal to it.\<close>

definition named :: "pyval \<Rightarrow> fields \<Rightarrow> bool" where
  "named n b = (case b ''name'' of None \<Rightarrow> False | Some k \<Rightarrow> py_eq k n)"

definition billing_for :: "fields list \<Rightarrow> pyval \<Rightarrow> fields option" where
  "billing_for billing n = find (named n) (rev billing)"

definition billing_fields :: "string list" where
  "billing_fields =
     [''payment_method'', ''street'', ''city'', ''postcode'', ''card_number'', ''card_cvv'']"

lemma find_app:
  "find P (xs @ ys) = (case find P xs of None \<Rightarrow> find P ys | Some x \<Rightarrow> Some x)"
  by (induction xs) auto

lemma index_by_name:
  "index_by ''name'' bs d = Inr d' \<Longrightarrow>
     dict_get d' n = (case find (named n) (rev bs) of None \<Rightarrow> dict_get d n | Some b \<Rightarrow> Some b)"
proof (induction bs arbitrary: d)
  case Nil
  then show ?case by simp
next
  case (Cons b bs)
  from Cons.prems obtain k where k: "b ''name'' = Some k"
    and run: "index_by ''name'' bs (dict_set k b d) = Inr d'"
    by (auto split: option.splits)
  have n: "named n b = py_eq k n" by (simp add: named_def k)
  show ?case
    using Cons.IH [OF run] n
    by (auto simp: find_app dict_get_dict_set split: option.splits)
qed

lemma attach_billing_fields:
  assumes "attach_billing d cust = Inr r" and "f \<in> set billing_fields"
  shows "r f = Some (get_or (case dict_get d (the (cust ''name'')) of None \<Rightarrow> Map.empty | Some b \<Rightarrow> b)
                       f (PyStr []))"
  using assms
  by (auto simp: attach_billing_def billing_fields_def Let_def split: option.splits)

lemma attach_billing_frame:
  assumes "attach_billing d cust = Inr r"
    and "f \<notin> set billing_fields" and "f \<noteq> ''phone_number''"
  shows "r f = cust f"
  using assms
  by (auto simp: attach_billing_def billing_fields_def Let_def map_add_def split: option.splits)

lemma attach_billing_total:
  "cust ''name'' \<noteq> None \<Longrightarrow> \<exists>r. attach_billing d cust = Inr r"
  by (auto simp: attach_billing_def Let_def)

lemma billing_loop_result:
  "list_all (\<lambda>c. c ''name'' \<noteq> None) basic \<Longrightarrow>
     \<exists>out. billing_loop d basic = Inr out \<and>
       list_all2 (\<lambda>cust r. attach_billing d cust = Inr r) basic out"
proof (induction basic)
  case Nil
  then show ?case by simp
next
  case (Cons c basic)
  from Cons.prems have "c ''name'' \<noteq> None" by simp
  from attach_billing_total [of c d, OF this] obtain r where r: "attach_billing d c = Inr r"
    by blast
  from Cons obtain out where "billing_loop d basic = Inr out"
    "list_all2 (\<lambda>cust r. attach_billing d cust = Inr r) basic out" by auto
  with r show ?case by simp
qed

lemma find_SomeD: "find P xs = Some x \<Longrightarrow> x \<in> set xs \<and> P x"
  by (induction xs) (auto split: if_splits)

text \<open>
  Claim C8. When every billing record and every customer has a name,
  \<open>transform_customers_with_billing\<close> completes and returns one record per customer,
  in order. If no billing record has the customer's name, the six billing fields of the
  record are the empty string. If some have, the six fields are those of the last such
  billing record (the empty string for a field it lacks). Names are compared as
  dictionary keys, so two strings match only when they are equal. No field but the six
  and \<^verbatim>\<open>phone_number\<close> is changed.
\<close>

theorem billing_joined_by_name:
  assumes bill: "list_all (\<lambda>b. b ''name'' \<noteq> None) billing"
    and cust: "list_all (\<lambda>c. c ''name'' \<noteq> None) basic"
  shows "\<exists>out. transform_customers_with_billing basic billing = Inr out \<and>
           length out = length basic \<and>
           (\<forall>i<length basic.
              (case billing_for billing (the ((basic ! i) ''name'')) of
                 None \<Rightarrow>
                   (\<forall>b\<in>set billing. \<not> named (the ((basic ! i) ''name'')) b) \<and>
                   (\<forall>f\<in>set billing_fields. (out ! i) f = Some (PyStr []))
               | Some b \<Rightarrow>
                   b \<in> set billing \<and> named (the ((basic ! i) ''name'')) b \<and>
                   (\<forall>f\<in>set billing_fields. (out ! i) f = Some (get_or b f (PyStr [])))) \<and>
              (\<forall>f. f \<notin> set billing_fields \<longrightarrow> f \<noteq> ''phone_number'' \<longrightarrow>
                     (out ! i) f = (basic ! i) f))"
proof -
  from index_by_total [OF bill] obtain d where d: "index_by ''name'' billing [] = Inr d"
    by blast
  have get: "dict_get d n = billing_for billing n" for n
    using index_by_name [OF d, of n] by (simp add: billing_for_def split: option.splits)
  from billing_loop_result [OF cust, of d] obtain out where
    run: "billing_loop d basic = Inr out"
    and all: "list_all2 (\<lambda>cust r. attach_billing d cust = Inr r) basic out" by blast
  have t: "transform_customers_with_billing basic billing = Inr out"
    by (simp add: transform_customers_with_billing_def d run)
  from all have len: "length out = length basic" by (simp add: list_all2_lengthD)
  have "(case billing_for billing (the ((basic ! i) ''name'')) of
           None \<Rightarrow>
             (\<forall>b\<in>set billing. \<not> named (the ((basic ! i) ''name'')) b) \<and>
             (\<forall>f\<in>set billing_fields. (out ! i) f = Some (PyStr []))
         | Some b \<Rightarrow>
             b \<in> set billing \<and> named (the ((basic ! i) ''name'')) b \<and>
             (\<forall>f\<in>set billing_fields. (out ! i) f = Some (get_or b f (PyStr [])))) \<and>
        (\<forall>f. f \<notin> set billing_fields \<longrightarrow> f \<noteq> ''phone_number'' \<longrightarrow>
               (out ! i) f = (basic ! i) f)" if i: "i < length basic" for i
  proof -
    let ?n = "the ((basic ! i) ''name'')"
    from all i have a: "attach_billing d (basic ! i) = Inr (out ! i)"
      by (simp add: list_all2_conv_all_nth)
    have frame: "\<forall>f. f \<notin> set billing_fields \<longrightarrow> f \<noteq> ''phone_number'' \<longrightarrow>
                   (out ! i) f = (basic ! i) f"
      using attach_billing_frame [OF a] by blast
    show ?thesis
    proof (cases "billing_for billing ?n")
      case None
      then have "\<forall>b\<in>set billing. \<not> named ?n b"
        by (simp add: billing_for_def find_None_iff)
      moreover have "\<forall>f\<in>set billing_fields. (out ! i) f = Some (PyStr [])"
        using attach_billing_fields [OF a] None by (simp add: get get_or_def)
      ultimately show ?thesis using None frame by simp
    next
      case (Some b)
      then have "b \<in> set billing" "named ?n b"
        using find_SomeD [of "named ?n" "rev billing" b] by (simp_all add: billing_for_def)
      moreover have "\<forall>f\<in>set billing_fields. (out ! i) f = Some (get_or b f (PyStr []))"
        using attach_billing_fields [OF a] Some by (simp add: get)
      ultimately show ?thesis using Some frame by simp
    qed
  qed
  with t len show ?thesis by blast
qed

definition cust_ann :: fields where
  "cust_ann = [''name'' \<mapsto> PyStr ''Ann Lee'', ''email'' \<mapsto> PyStr ''ann@example.org'']"

definition cust_bob :: fields where
  "cust_bob = [''name'' \<mapsto> PyStr ''Bob'']"

definition bill_ann_old :: fields where
  "bill_ann_old = [''name'' \<mapsto> PyStr ''Ann Lee'', ''street'' \<mapsto> PyStr ''1 Old Road'']"

definition bill_ann_new :: fields where
  "bill_ann_new = [''name'' \<mapsto> PyStr ''Ann Lee'', ''street'' \<mapsto> PyStr ''2 New Road'']"

theorem billing_joined_by_name_witness:
  "\<exists>out. transform_customers_with_billing [cust_ann, cust_bob] [bill_ann_old, bill_ann_new]
            = Inr out \<and>
         length out = 2 \<and>
         (out ! 0) ''street'' = Some (PyStr ''2 New Road'') \<and>
         (out ! 0) ''city'' = Some (PyStr []) \<and>
         (out ! 0) ''email'' = Some (PyStr ''ann@example.org'') \<and>
         (out ! 1) ''street'' = Some (PyStr [])"
proof -
  have 1: "list_all (\<lambda>b. b ''name'' \<noteq> None) [bill_ann_old, bill_ann_new]"
    by (simp add: bill_ann_old_def bill_ann_new_def)
  have 2: "list_all (\<lambda>c. c ''name'' \<noteq> None) [cust_ann, cust_bob]"
    by (simp add: cust_ann_def cust_bob_def)
  have 3: "billing_for [bill_ann_old, bill_ann_new] (the (cust_ann ''name'')) = Some bill_ann_new"
    by (simp add: billing_for_def named_def cust_ann_def bill_ann_new_def)
  have 4: "billing_for [bill_ann_old, bill_ann_new] (the (cust_bob ''name'')) = None"
    by (simp add: billing_for_def named_def cust_bob_def bill_ann_new_def bill_ann_old_def)
  from billing_joined_by_name [OF 1 2] obtain out where
    t: "transform_customers_with_billing [cust_ann, cust_bob] [bill_ann_old, bill_ann_new] = Inr out"
    and l: "length out = length [cust_ann, cust_bob]"
    and a: "\<forall>i<length [cust_ann, cust_bob].
              (case billing_for [bill_ann_old, bill_ann_new]
                      (the (([cust_ann, cust_bob] ! i) ''name'')) of
                 None \<Rightarrow>
                   (\<forall>b\<in>set [bill_ann_old, bill_ann_new].
                       \<not> named (the (([cust_ann, cust_bob] ! i) ''name'')) b) \<and>
                   (\<forall>f\<in>set billing_fields. (out ! i) f = Some (PyStr []))
               | Some b \<Rightarrow>
                   b \<in> set [bill_ann_old, bill_ann_new] \<and>
                   named (the (([cust_ann, cust_bob] ! i) ''name'')) b \<and>
                   (\<forall>f\<in>set billing_fields. (out ! i) f = Some (get_or b f (PyStr [])))) \<and>
              (\<forall>f. f \<notin> set billing_fields \<longrightarrow> f \<noteq> ''phone_number'' \<longrightarrow>
                     (out ! i) f = ([cust_ann, cust_bob] ! i) f)"
    by blast
  from a [rule_format, of 0] 3 have a0:
    "\<forall>f\<in>set billing_fields. (out ! 0) f = Some (get_or bill_ann_new f (PyStr []))"
    "\<forall>f. f \<notin> set billing_fields \<longrightarrow> f \<noteq> ''phone_number'' \<longrightarrow> (out ! 0) f = cust_ann f"
    by simp_all
  from a [rule_format, of 1] 4 have a1:
    "\<forall>f\<in>set billing_fields. (out ! 1) f = Some (PyStr [])"
    by simp
  from a0(1) have "(out ! 0) ''street'' = Some (PyStr ''2 New Road'')"
    "(out ! 0) ''city'' = Some (PyStr [])"
    by (simp_all add: billing_fields_def bill_ann_new_def get_or_def)
  moreover from a0(2) have "(out ! 0) ''email'' = Some (PyStr ''ann@example.org'')"
    by (simp add: billing_fields_def cust_ann_def)
  moreover from a1 have "(out ! 1) ''street'' = Some (PyStr [])"
    by (simp add: billing_fields_def)
  ultimately show ?thesis using t l by simp
qed

section \<open>Properties of the prompt merge\<close>

text \<open>The prompts of an identifier, and the entries a grouping holds for it.\<close>

definition prompt_of :: "pyval \<Rightarrow> pydict \<Rightarrow> bool" where
  "prompt_of k p = (case map_of p ''employee_id'' of None \<Rightarrow> False | Some k' \<Rightarrow> py_eq k' k)"

definition items_of :: "(pyval \<times> 'v list) list \<Rightarrow> pyval \<Rightarrow> 'v list" where
  "items_of d k = (case dict_get d k of None \<Rightarrow> [] | Some items \<Rightarrow> items)"

lemma json_dumps_Nil: "json_dumps [] = ''[]''"
  by (simp add: json_dumps_def)

lemma group_prompts_total:
  "list_all (\<lambda>p. map_of p ''employee_id'' \<noteq> None) ps \<Longrightarrow> \<exists>d'. group_prompts ps d = Inr d'"
  by (induction ps arbitrary: d) auto

lemma group_prompts_items:
  "group_prompts ps d = Inr d' \<Longrightarrow> items_of d' k = items_of d k @ filter (prompt_of k) ps"
proof (induction ps arbitrary: d)
  case Nil
  then show ?case by simp
next
  case (Cons p ps)
  from Cons.prems obtain kp where kp: "map_of p ''employee_id'' = Some kp"
    and run: "group_prompts ps (dict_set kp (items_of d kp @ [p]) d) = Inr d'"
    by (auto simp: items_of_def split: option.splits)
  have step: "items_of (dict_set kp (items_of d kp @ [p]) d) k =
                items_of d k @ (if prompt_of k p then [p] else [])"
  proof (cases "py_eq kp k")
    case True
    then have "dict_get d kp = dict_get d k" by (rule dict_get_cong)
    with True kp show ?thesis by (simp add: items_of_def dict_get_dict_set prompt_of_def)
  next
    case False
    with kp show ?thesis by (simp add: items_of_def dict_get_dict_set prompt_of_def)
  qed
  from Cons.IH [OF run] step show ?case by simp
qed

lemma flag_loop_result:
  "list_all (\<lambda>e. e ''employee_id'' \<noteq> None) es \<Longrightarrow>
     flag_loop d es =
       Inr (map (\<lambda>e. e(''flagged_prompts'' \<mapsto>
                        PyStr (json_dumps (items_of d (the (e ''employee_id'')))))) es)"
  by (induction es) (auto simp: flag_employee_def items_of_def)

text \<open>
  Claim C9. When every employee record and every prompt has an \<^verbatim>\<open>employee_id\<close>,
  \<open>merge_flagged_prompts\<close> completes and returns one record per employee, in order:
  the employee's record with \<^verbatim>\<open>flagged_prompts\<close> set to the JSON text of the list of
  the prompts with that identifier. Every other field is unchanged, and the text is
  \<^verbatim>\<open>[]\<close> when no prompt has the identifier.
\<close>

theorem merge_flagged_prompts_frame:
  assumes emps: "list_all (\<lambda>e. e ''employee_id'' \<noteq> None) employees"
    and ps: "list_all (\<lambda>p. map_of p ''employee_id'' \<noteq> None) prompts"
  shows "\<exists>out. merge_flagged_prompts employees prompts = Inr out \<and>
           length out = length employees \<and>
           (\<forall>i<length employees.
              out ! i =
                (employees ! i)(''flagged_prompts'' \<mapsto>
                   PyStr (json_dumps
                     (filter (prompt_of (the ((employees ! i) ''employee_id''))) prompts))) \<and>
              (\<forall>f. f \<noteq> ''flagged_prompts'' \<longrightarrow> (out ! i) f = (employees ! i) f) \<and>
              ((\<forall>p\<in>set prompts. \<not> prompt_of (the ((employees ! i) ''employee_id'')) p) \<longrightarrow>
                 (out ! i) ''flagged_prompts'' = Some (PyStr ''[]'')))"
proof -
  from group_prompts_total [OF ps] obtain d where d: "group_prompts prompts [] = Inr d"
    by blast
  have items: "items_of d k = filter (prompt_of k) prompts" for k
    using group_prompts_items [OF d, of k] by (simp add: items_of_def)
  let ?out = "map (\<lambda>e. e(''flagged_prompts'' \<mapsto>
                   PyStr (json_dumps (filter (prompt_of (the (e ''employee_id''))) prompts))))
               employees"
  have t: "merge_flagged_prompts employees prompts = Inr ?out"
    by (simp add: merge_flagged_prompts_def d flag_loop_result [OF emps] items)
  have "?out ! i =
          (employees ! i)(''flagged_prompts'' \<mapsto>
             PyStr (json_dumps
               (filter (prompt_of (the ((employees ! i) ''employee_id''))) prompts))) \<and>
        (\<forall>f. f \<noteq> ''flagged_prompts'' \<longrightarrow> (?out ! i) f = (employees ! i) f) \<and>
        ((\<forall>p\<in>set prompts. \<not> prompt_of (the ((employees ! i) ''employee_id'')) p) \<longrightarrow>
           (?out ! i) ''flagged_prompts'' = Some (PyStr ''[]''))"
    if "i < length employees" for i
    using that by (simp add: json_dumps_Nil filter_empty_conv [THEN iffD2])
  with t show ?thesis by (intro exI [of _ ?out]) simp
qed

definition prompt_e1 :: pydict where
  "prompt_e1 = [(''employee_id'', PyStr ''E1''), (''timestamp'', PyStr ''09:00''),
                (''prompt'', PyStr ''export all'')]"

theorem merge_flagged_prompts_frame_witness:
  "\<exists>out. merge_flagged_prompts [emp_ann, emp_ann(''employee_id'' \<mapsto> PyStr ''E9'')] [prompt_e1] = Inr out \<and>
     length out = 2 \<and>
     (out ! 1) ''flagged_prompts'' = Some (PyStr ''[]'') \<and>
     (out ! 1) ''first_name'' = Some (PyStr ''Ann'') \<and>
     (out ! 0) ''first_name'' = Some (PyStr ''Ann'') \<and>
     (out ! 0) ''flagged_prompts'' = Some (PyStr (json_dumps [prompt_e1]))"
proof -
  let ?es = "[emp_ann, emp_ann(''employee_id'' \<mapsto> PyStr ''E9'')]"
  have 1: "list_all (\<lambda>e. e ''employee_id'' \<noteq> None) ?es"
    by (simp add: emp_ann_def)
  have 2: "list_all (\<lambda>p. map_of p ''employee_id'' \<noteq> None) [prompt_e1]"
    by (simp add: prompt_e1_def)
  from merge_flagged_prompts_frame [OF 1 2] obtain out where
    t: "merge_flagged_prompts ?es [prompt_e1] = Inr out" and l: "length out = length ?es"
    and a: "\<forall>i<length ?es.
              out ! i =
                (?es ! i)(''flagged_prompts'' \<mapsto>
                   PyStr (json_dumps
                     (filter (prompt_of (the ((?es ! i) ''employee_id''))) [prompt_e1]))) \<and>
              (\<forall>f. f \<noteq> ''flagged_prompts'' \<longrightarrow> (out ! i) f = (?es ! i) f) \<and>
              ((\<forall>p\<in>set [prompt_e1]. \<not> prompt_of (the ((?es ! i) ''employee_id'')) p) \<longrightarrow>
                 (out ! i) ''flagged_prompts'' = Some (PyStr ''[]''))"
    by blast
  have p0: "prompt_of (the (emp_ann ''employee_id'')) prompt_e1"
    by (simp add: prompt_of_def prompt_e1_def emp_ann_def)
  have p1: "\<not> prompt_of (PyStr ''E9'') prompt_e1"
    by (simp add: prompt_of_def prompt_e1_def)
  from a [rule_format, of 0] p0 have
    "(out ! 0) ''flagged_prompts'' = Some (PyStr (json_dumps [prompt_e1]))"
    "(out ! 0) ''first_name'' = Some (PyStr ''Ann'')"
    by (simp_all add: emp_ann_def)
  moreover from a [rule_format, of 1] p1 have
    "(out ! 1) ''flagged_prompts'' = Some (PyStr ''[]'')"
    "(out ! 1) ''first_name'' = Some (PyStr ''Ann'')"
    by (simp_all add: emp_ann_def json_dumps_Nil)
  ultimately show ?thesis using t l by simp
qed


section \<open>Properties of the loaders\<close>

text \<open>
  Once the mapper has accepted a record, the three operations act on the rows alone:
  \<open>find_row\<close> looks for the rows with a value of an attribute, \<open>write_row\<close> overwrites
  the attributes a record gives in the rows with that value, and \<open>add_row\<close> appends
  the record.
\<close>

definition find_row :: "string \<Rightarrow> pyval \<Rightarrow> table \<Rightarrow> error + fields option" where
  "find_row attr v rows =
     (case filter (\<lambda>r. r attr = Some v) rows of
        [] \<Rightarrow> Inr None
      | [r] \<Rightarrow> Inr (Some r)
      | _ \<Rightarrow> Inl MultipleObjectsFoundError)"

definition write_row :: "string \<Rightarrow> pyval \<Rightarrow> fields \<Rightarrow> table \<Rightarrow> table" where
  "write_row attr v c rows = map (\<lambda>r. if r attr = Some v then r ++ c else r) rows"

definition add_row :: "fields \<Rightarrow> table \<Rightarrow> table" where
  "add_row c rows = rows @ [c]"

text \<open>
  Both loaders insert or update by one attribute. \<open>upsert\<close> is that step for a stored
  record that has the attribute, and \<open>overlay\<close> is what the records of \<open>cs\<close> with the
  value \<open>a\<close> of the attribute write, one after the other.
\<close>

definition upsert :: "string \<Rightarrow> fields \<Rightarrow> table \<times> nat \<times> nat \<Rightarrow> error + table \<times> nat \<times> nat" where
  "upsert attr c st =
     (case st of (rows, loaded, updated) \<Rightarrow>
        (case find_row attr (get_none c attr) rows of
           Inl e \<Rightarrow> Inl e
         | Inr (Some existing) \<Rightarrow>
             Inr (write_row attr (get_none c attr) c rows, loaded, updated + 1)
         | Inr None \<Rightarrow> Inr (add_row c rows, loaded + 1, updated)))"

fun upsert_loop ::
  "string \<Rightarrow> fields list \<Rightarrow> table \<times> nat \<times> nat \<Rightarrow> error + table \<times> nat \<times> nat" where
  "upsert_loop attr [] st = Inr st"
| "upsert_loop attr (c # cs) st =
     (case upsert attr c st of Inl e \<Rightarrow> Inl e | Inr st' \<Rightarrow> upsert_loop attr cs st')"

fun overlay :: "string \<Rightarrow> pyval option \<Rightarrow> fields list \<Rightarrow> fields" where
  "overlay attr a [] = Map.empty"
| "overlay attr a (c # cs) =
     (if c attr = a then c ++ overlay attr a cs else overlay attr a cs)"

definition absorb :: "string \<Rightarrow> fields list \<Rightarrow> fields \<Rightarrow> fields" where
  "absorb attr cs r = r ++ overlay attr (r attr) cs"

definition cnt :: "string \<Rightarrow> pyval option \<Rightarrow> table \<Rightarrow> nat" where
  "cnt attr a rows = length (filter (\<lambda>r. r attr = a) rows)"

definition unique_key :: "string \<Rightarrow> table \<Rightarrow> bool" where
  "unique_key attr rows = (\<forall>v. truthy v \<longrightarrow> cnt attr (Some v) rows \<le> 1)"

lemma map_add_same [simp]: "(m :: 'a \<rightharpoonup> 'b) ++ m = m"
  by (rule ext) (simp add: map_add_def split: option.splits)

lemma map_add_twice [simp]: "((m :: 'a \<rightharpoonup> 'b) ++ x) ++ x = m ++ x"
  by (simp add: map_add_assoc [symmetric])

lemma keyed_get_none: "c attr = Some v \<Longrightarrow> get_none c attr = v"
  by (simp add: get_none_def get_or_def)

lemma overlay_attr: "overlay attr a cs attr = None \<or> overlay attr a cs attr = a"
  by (induction cs) (auto simp: map_add_def split: option.splits)

lemma absorb_attr [simp]: "absorb attr cs r attr = r attr"
  using overlay_attr [of attr "r attr" cs]
  by (auto simp: absorb_def map_add_def split: option.splits)

lemma absorb_absorb [simp]: "absorb attr cs (absorb attr cs r) = absorb attr cs r"
proof -
  have "absorb attr cs (absorb attr cs r) =
          (r ++ overlay attr (r attr) cs) ++ overlay attr (r attr) cs"
    using absorb_attr [of attr cs r] by (simp add: absorb_def)
  then show ?thesis by (simp add: absorb_def)
qed

lemma find_row_cases:
  "find_row attr v rows =
     (if cnt attr (Some v) rows = 0 then Inr None
      else if cnt attr (Some v) rows = 1 then Inr (Some (hd (filter (\<lambda>r. r attr = Some v) rows)))
      else Inl MultipleObjectsFoundError)"
proof (cases "filter (\<lambda>r. r attr = Some v) rows")
  case Nil
  then show ?thesis by (simp add: find_row_def cnt_def)
next
  case (Cons r rs)
  then show ?thesis by (cases rs) (simp_all add: find_row_def cnt_def)
qed

lemma cnt_write_row:
  "c attr = Some v \<Longrightarrow> cnt attr a (write_row attr v c rows) = cnt attr a rows"
  by (induction rows) (auto simp: cnt_def write_row_def map_add_def)

lemma cnt_add_row:
  "cnt attr a (add_row c rows) = cnt attr a rows + (if c attr = a then 1 else 0)"
  by (simp add: cnt_def add_row_def)


lemma upsert_cases:
  assumes k: "c attr = Some v"
  shows "upsert attr c (rows, l, u) =
     (if cnt attr (Some v) rows = 0 then Inr (rows @ [c], l + 1, u)
      else if cnt attr (Some v) rows = 1 then Inr (write_row attr v c rows, l, u + 1)
      else Inl MultipleObjectsFoundError)"
  using k by (simp add: upsert_def get_none_def get_or_def find_row_cases add_row_def)

lemma absorb_Cons_hit:
  "c attr = r attr \<Longrightarrow> absorb attr cs (r ++ c) = absorb attr (c # cs) r"
proof -
  assume h: "c attr = r attr"
  have "(r ++ c) attr = r attr"
    using h by (simp add: map_add_def split: option.splits)
  with h show ?thesis by (simp add: absorb_def)
qed

lemma absorb_Cons_miss:
  "c attr \<noteq> r attr \<Longrightarrow> absorb attr (c # cs) r = absorb attr cs r"
  by (simp add: absorb_def)

lemma map_absorb_write_row:
  "c attr = Some v \<Longrightarrow>
     map (absorb attr cs) (write_row attr v c rows) = map (absorb attr (c # cs)) rows"
  by (induction rows) (auto simp: write_row_def absorb_Cons_hit absorb_Cons_miss)

text \<open>A run in which every record finds its row: it writes every overlay and inserts nothing.\<close>

lemma upsert_loop_update_only:
  "\<forall>c\<in>set cs. c attr \<noteq> None \<and> cnt attr (c attr) rows = 1 \<Longrightarrow>
     upsert_loop attr cs (rows, l, u) = Inr (map (absorb attr cs) rows, l, u + length cs)"
proof (induction cs arbitrary: rows l u)
  case Nil
  have "map (absorb attr []) rows = rows" by (induction rows) (simp_all add: absorb_def)
  then show ?case by simp
next
  case (Cons c cs)
  from Cons.prems obtain v where v: "c attr = Some v" and one: "cnt attr (Some v) rows = 1"
    by auto
  have step: "upsert attr c (rows, l, u) = Inr (write_row attr v c rows, l, u + 1)"
    using upsert_cases [of c attr v rows l u] v one by simp
  have "\<forall>c'\<in>set cs. c' attr \<noteq> None \<and> cnt attr (c' attr) (write_row attr v c rows) = 1"
    using Cons.prems v by (simp add: cnt_write_row [of c attr v])
  from Cons.IH [OF this, of l "u + 1"] show ?case
    using map_absorb_write_row [of c attr v cs rows] v by (simp add: step)
qed

lemma overlay_Cons_other:
  "c attr \<noteq> a \<Longrightarrow> overlay attr a (c # cs) = overlay attr a cs"
  by simp

lemma absorb_fresh:
  "absorb attr cs c = overlay attr (c attr) (c # cs)"
  by (simp add: absorb_def)

lemma cnt_zero_iff: "cnt attr a rows = 0 \<longleftrightarrow> (\<forall>r\<in>set rows. r attr \<noteq> a)"
  by (simp add: cnt_def filter_empty_conv)

text \<open>
  The table after a run: every old row with its overlay, then the rows inserted, each
  one the overlay of a value that no old row had.
\<close>

lemma upsert_loop_result:
  "upsert_loop attr cs (rows, l, u) = Inr (rows', l', u') \<Longrightarrow>
   \<forall>c\<in>set cs. c attr \<noteq> None \<Longrightarrow>
   \<exists>news. rows' = map (absorb attr cs) rows @ news \<and>
          (\<forall>n\<in>set news. n = overlay attr (n attr) cs \<and> cnt attr (n attr) rows = 0)"
proof (induction cs arbitrary: rows l u)
  case Nil
  have "map (absorb attr []) rows = rows" by (induction rows) (simp_all add: absorb_def)
  with Nil show ?case by simp
next
  case (Cons c cs)
  from Cons.prems(2) obtain v where v: "c attr = Some v" by auto
  have keyed: "\<forall>c\<in>set cs. c attr \<noteq> None" using Cons.prems(2) by simp
  note uc = upsert_cases [of c attr v rows l u]
  consider (ins) "cnt attr (Some v) rows = 0" | (upd) "cnt attr (Some v) rows = 1"
    | (err) "cnt attr (Some v) rows \<noteq> 0" "cnt attr (Some v) rows \<noteq> 1"
    by blast
  then show ?case
  proof cases
    case err
    with uc v Cons.prems(1) show ?thesis by simp
  next
    case upd
    with uc v Cons.prems(1) have
      run: "upsert_loop attr cs (write_row attr v c rows, l, u + 1) = Inr (rows', l', u')"
      by simp
    from Cons.IH [OF run keyed] obtain news where
      r: "rows' = map (absorb attr cs) (write_row attr v c rows) @ news"
      and n: "\<forall>n\<in>set news. n = overlay attr (n attr) cs \<and>
                cnt attr (n attr) (write_row attr v c rows) = 0"
      by blast
    have r': "rows' = map (absorb attr (c # cs)) rows @ news"
      using r map_absorb_write_row [of c attr v cs rows] v by simp
    have "n = overlay attr (n attr) (c # cs) \<and> cnt attr (n attr) rows = 0"
      if "n \<in> set news" for n
    proof -
      from n that have a: "n = overlay attr (n attr) cs" and
        z: "cnt attr (n attr) rows = 0"
        using cnt_write_row [of c attr v "n attr" rows] v by auto
      from z upd have "n attr \<noteq> c attr" using v by auto
      then have "overlay attr (n attr) (c # cs) = overlay attr (n attr) cs" by simp
      with a z show ?thesis by simp
    qed
    with r' show ?thesis by blast
  next
    case ins
    with uc v Cons.prems(1) have
      run: "upsert_loop attr cs (rows @ [c], l + 1, u) = Inr (rows', l', u')"
      by simp
    from Cons.IH [OF run keyed] obtain news where
      r: "rows' = map (absorb attr cs) (rows @ [c]) @ news"
      and n: "\<forall>n\<in>set news. n = overlay attr (n attr) cs \<and>
                cnt attr (n attr) (rows @ [c]) = 0"
      by blast
    have old: "map (absorb attr cs) rows = map (absorb attr (c # cs)) rows"
    proof (rule map_cong [OF refl])
      fix r assume "r \<in> set rows"
      with ins have "r attr \<noteq> Some v" by (simp add: cnt_zero_iff)
      with v show "absorb attr cs r = absorb attr (c # cs) r"
        by (simp add: absorb_def)
    qed
    have r': "rows' = map (absorb attr (c # cs)) rows @ (absorb attr cs c # news)"
      using r old by simp
    have new: "absorb attr cs c = overlay attr (absorb attr cs c attr) (c # cs)"
      unfolding absorb_attr by (rule absorb_fresh)
    have newz: "cnt attr (absorb attr cs c attr) rows = 0"
      using ins v by simp
    have rest: "n = overlay attr (n attr) (c # cs) \<and> cnt attr (n attr) rows = 0"
      if "n \<in> set news" for n
    proof -
      from n that have a: "n = overlay attr (n attr) cs" and
        z: "cnt attr (n attr) (rows @ [c]) = 0" by auto
      from z have z1: "cnt attr (n attr) rows = 0" and ne: "c attr \<noteq> n attr"
        by (auto simp: cnt_def split: if_splits)
      from ne have "overlay attr (n attr) (c # cs) = overlay attr (n attr) cs" by simp
      with a z1 show ?thesis by simp
    qed
    have "\<forall>n\<in>set (absorb attr cs c # news).
            n = overlay attr (n attr) (c # cs) \<and> cnt attr (n attr) rows = 0"
    proof
      fix n assume "n \<in> set (absorb attr cs c # news)"
      then consider "n = absorb attr cs c" | "n \<in> set news" by auto
      then show "n = overlay attr (n attr) (c # cs) \<and> cnt attr (n attr) rows = 0"
      proof cases
        case 1
        show ?thesis unfolding 1 using new newz by (intro conjI)
      next
        case 2
        then show ?thesis by (rule rest)
      qed
    qed
    with r' show ?thesis by blast
  qed
qed

lemma upsert_loop_absorbed:
  assumes "upsert_loop attr cs (rows, l, u) = Inr (rows', l', u')"
    and "\<forall>c\<in>set cs. c attr \<noteq> None"
  shows "map (absorb attr cs) rows' = rows'"
proof -
  from upsert_loop_result [OF assms] obtain news where
    r: "rows' = map (absorb attr cs) rows @ news"
    and n: "\<forall>n\<in>set news. n = overlay attr (n attr) cs \<and> cnt attr (n attr) rows = 0"
    by blast
  have "map (absorb attr cs) news = news"
  proof (rule map_idI)
    fix x assume "x \<in> set news"
    with n have x: "x = overlay attr (x attr) cs" by blast
    have "absorb attr cs x = x ++ overlay attr (x attr) cs" by (simp add: absorb_def)
    also have "\<dots> = x ++ x" using x by simp
    finally show "absorb attr cs x = x" by simp
  qed
  then show ?thesis by (simp add: r)
qed

lemma upsert_step:
  assumes v: "c attr = Some v" and s: "upsert attr c (rows, l, u) = Inr (rows1, l1, u1)"
  shows "cnt attr (Some v) rows1 = 1"
    and "cnt attr a rows = 1 \<Longrightarrow> cnt attr a rows1 = 1"
    and "unique_key attr rows \<Longrightarrow> unique_key attr rows1"
    and "l1 + u1 = l + u + 1"
proof -
  note uc = upsert_cases [of c attr v rows l u]
  consider (ins) "cnt attr (Some v) rows = 0" | (upd) "cnt attr (Some v) rows = 1"
    | (err) "cnt attr (Some v) rows \<noteq> 0" "cnt attr (Some v) rows \<noteq> 1"
    by blast
  then have "cnt attr (Some v) rows1 = 1 \<and> (cnt attr a rows = 1 \<longrightarrow> cnt attr a rows1 = 1) \<and>
             (unique_key attr rows \<longrightarrow> unique_key attr rows1) \<and> l1 + u1 = l + u + 1"
  proof cases
    case err
    with uc v s show ?thesis by simp
  next
    case upd
    with uc v s have r: "rows1 = write_row attr v c rows" "l1 = l" "u1 = u + 1" by simp_all
    have "cnt attr b rows1 = cnt attr b rows" for b
      unfolding r using cnt_write_row [of c attr v b rows] v by simp
    with upd r show ?thesis by (simp add: unique_key_def)
  next
    case ins
    with uc v s have r: "rows1 = rows @ [c]" "l1 = l + 1" "u1 = u" by simp_all
    have c: "cnt attr b rows1 = cnt attr b rows + (if c attr = b then 1 else 0)" for b
      unfolding r by (simp add: cnt_def)
    have "unique_key attr rows \<longrightarrow> unique_key attr rows1"
      unfolding unique_key_def
    proof (intro impI allI)
      fix w assume u: "\<forall>v. truthy v \<longrightarrow> cnt attr (Some v) rows \<le> 1" and t: "truthy w"
      show "cnt attr (Some w) rows1 \<le> 1"
      proof (cases "w = v")
        case True
        with ins c [of "Some v"] v show ?thesis by simp
      next
        case False
        with c [of "Some w"] v u t show ?thesis by simp
      qed
    qed
    moreover have "cnt attr a rows = 1 \<longrightarrow> cnt attr a rows1 = 1"
      using c [of a] ins v by auto
    ultimately show ?thesis using ins c [of "Some v"] v r by simp
  qed
  then show "cnt attr (Some v) rows1 = 1"
    and "cnt attr a rows = 1 \<Longrightarrow> cnt attr a rows1 = 1"
    and "unique_key attr rows \<Longrightarrow> unique_key attr rows1"
    and "l1 + u1 = l + u + 1" by simp_all
qed

lemma upsert_total:
  assumes v: "c attr = Some v" and t: "truthy v" and u: "unique_key attr rows"
  shows "\<exists>rows1 l1 u1. upsert attr c (rows, l, u0) = Inr (rows1, l1, u1)"
proof -
  from u t have "cnt attr (Some v) rows \<le> 1" by (simp add: unique_key_def)
  then have "cnt attr (Some v) rows = 0 \<or> cnt attr (Some v) rows = 1" by arith
  with upsert_cases [of c attr v rows l u0] v show ?thesis by auto
qed

lemma upsert_loop_total:
  "unique_key attr rows \<Longrightarrow> \<forall>c\<in>set cs. truthy (get_none c attr) \<Longrightarrow>
     \<exists>rows' l' u'. upsert_loop attr cs (rows, l, u) = Inr (rows', l', u')"
proof (induction cs arbitrary: rows l u)
  case Nil
  then show ?case by simp
next
  case (Cons c cs)
  from Cons.prems(2) have "truthy (get_none c attr)" by simp
  then obtain v where v: "c attr = Some v" and t: "truthy v"
    by (cases "c attr") (simp_all add: get_none_def get_or_def)
  from upsert_total [of c attr v rows l u] v t Cons.prems(1) obtain rows1 l1 u1 where
    s: "upsert attr c (rows, l, u) = Inr (rows1, l1, u1)" by blast
  from upsert_step(3) [of c attr v rows l u rows1 l1 u1] v s Cons.prems(1)
  have "unique_key attr rows1" by simp
  moreover have "\<forall>c\<in>set cs. truthy (get_none c attr)" using Cons.prems(2) by simp
  ultimately obtain rows' l' u' where
    "upsert_loop attr cs (rows1, l1, u1) = Inr (rows', l', u')"
    using Cons.IH by blast
  with s show ?case by simp
qed

lemma upsert_loop_keeps_one:
  "upsert_loop attr cs (rows, l, u) = Inr (rows', l', u') \<Longrightarrow>
   \<forall>c\<in>set cs. c attr \<noteq> None \<Longrightarrow> cnt attr a rows = 1 \<Longrightarrow> cnt attr a rows' = 1"
proof (induction cs arbitrary: rows l u)
  case Nil
  then show ?case by simp
next
  case (Cons c cs)
  from Cons.prems(2) obtain v where v: "c attr = Some v" by auto
  from Cons.prems(1) obtain rows1 l1 u1 where
    s: "upsert attr c (rows, l, u) = Inr (rows1, l1, u1)"
    and run: "upsert_loop attr cs (rows1, l1, u1) = Inr (rows', l', u')"
    by (cases "upsert attr c (rows, l, u)") auto
  from upsert_step(2) [of c attr v rows l u rows1 l1 u1 a] v s Cons.prems(3)
  have "cnt attr a rows1 = 1" by simp
  moreover have "\<forall>c\<in>set cs. c attr \<noteq> None" using Cons.prems(2) by simp
  ultimately show ?case using Cons.IH [OF run] by blast
qed

lemma upsert_loop_counts:
  "upsert_loop attr cs (rows, l, u) = Inr (rows', l', u') \<Longrightarrow>
   \<forall>c\<in>set cs. c attr \<noteq> None \<Longrightarrow>
   (\<forall>c\<in>set cs. cnt attr (c attr) rows' = 1) \<and> l' + u' = l + u + length cs"
proof (induction cs arbitrary: rows l u)
  case Nil
  then show ?case by simp
next
  case (Cons c cs)
  from Cons.prems(2) obtain v where v: "c attr = Some v" by auto
  have keyed: "\<forall>c\<in>set cs. c attr \<noteq> None" using Cons.prems(2) by simp
  from Cons.prems(1) obtain rows1 l1 u1 where
    s: "upsert attr c (rows, l, u) = Inr (rows1, l1, u1)"
    and run: "upsert_loop attr cs (rows1, l1, u1) = Inr (rows', l', u')"
    by (cases "upsert attr c (rows, l, u)") auto
  from upsert_step(1) [of c attr v rows l u rows1 l1 u1] v s
  have "cnt attr (c attr) rows1 = 1" by simp
  from upsert_loop_keeps_one [OF run keyed this] have c1: "cnt attr (c attr) rows' = 1" .
  from upsert_step(4) [of c attr v rows l u rows1 l1 u1] v s
  have n: "l1 + u1 = l + u + 1" by simp
  from Cons.IH [OF run keyed] c1 n show ?case by simp
qed

text \<open>Running the same records again changes no row and inserts none.\<close>

lemma upsert_loop_again:
  assumes run: "upsert_loop attr cs (rows, 0, 0) = Inr (rows', l', u')"
    and keyed: "\<forall>c\<in>set cs. c attr \<noteq> None"
  shows "upsert_loop attr cs (rows', 0, 0) = Inr (rows', 0, l' + u')"
proof -
  from upsert_loop_counts [OF run keyed] have
    one: "\<forall>c\<in>set cs. cnt attr (c attr) rows' = 1" and n: "l' + u' = length cs" by simp_all
  from keyed one have "\<forall>c\<in>set cs. c attr \<noteq> None \<and> cnt attr (c attr) rows' = 1" by blast
  from upsert_loop_update_only [OF this, of 0 0]
  have "upsert_loop attr cs (rows', 0, 0) = Inr (map (absorb attr cs) rows', 0, length cs)"
    by simp
  with upsert_loop_absorbed [OF run keyed] n show ?thesis by simp
qed

definition has_name :: "fields \<Rightarrow> bool" where
  "has_name c = truthy (get_none c ''name'')"

definition has_email :: "fields \<Rightarrow> bool" where
  "has_email c = truthy (get_none c ''email'')"

definition has_employee_id :: "fields \<Rightarrow> bool" where
  "has_employee_id e = truthy (get_none e ''employee_id'')"

text \<open>
  A record can be loaded by an attribute when the mapper accepts it and the value it
  stores for the attribute is not empty.
\<close>

definition loadable :: "conversion \<Rightarrow> string \<Rightarrow> fields \<Rightarrow> bool" where
  "loadable conv attr c = (accepted conv c \<and> truthy (get_none (stored conv c) attr))"

text \<open>The step of a loader for a record that passed its guard.\<close>

definition key_step ::
  "conversion \<Rightarrow> string \<Rightarrow> fields \<Rightarrow> table \<times> nat \<times> nat \<Rightarrow> error + table \<times> nat \<times> nat" where
  "key_step conv attr c st =
     (case st of (rows, loaded, updated) \<Rightarrow>
        (case orm_get conv attr (get_none c attr) rows of
           Inl e \<Rightarrow> Inl e
         | Inr (Some existing) \<Rightarrow>
             (case orm_set conv attr (get_none c attr) c rows of
                Inl e \<Rightarrow> Inl e
              | Inr rows' \<Rightarrow> Inr (rows', loaded, updated + 1))
         | Inr None \<Rightarrow>
             (case orm_create conv c rows of
                Inl e \<Rightarrow> Inl e
              | Inr rows' \<Rightarrow> Inr (rows', loaded + 1, updated))))"

lemma truthy_present: "truthy (get_none c k) \<Longrightarrow> c k \<noteq> None"
  by (cases "c k") (simp_all add: get_none_def get_or_def)

lemma loader_twice:
  assumes u: "unique_key attr rows" and t: "\<forall>c\<in>set cs. truthy (get_none c attr)"
  shows "\<exists>rows' l u. upsert_loop attr cs (rows, 0, 0) = Inr (rows', l, u) \<and>
           upsert_loop attr cs (rows', 0, 0) = Inr (rows', 0, l + u)"
proof -
  from t have keyed: "\<forall>c\<in>set cs. c attr \<noteq> None" by (simp add: truthy_present)
  from upsert_loop_total [OF u t, of 0 0] obtain rows' l' u' where
    run: "upsert_loop attr cs (rows, 0, 0) = Inr (rows', l', u')" by blast
  from upsert_loop_again [OF run keyed] run show ?thesis by blast
qed

lemma stored_key:
  assumes a: "accepted conv c" and v: "c attr = Some v"
  shows "\<exists>k. conv attr v = Some k \<and> stored conv c attr = Some k"
proof -
  from a have "case c attr of None \<Rightarrow> True | Some v \<Rightarrow> conv attr v \<noteq> None"
    unfolding accepted_def by (rule spec)
  with v obtain k where "conv attr v = Some k" by auto
  with v show ?thesis by (simp add: stored_def)
qed

lemma key_step_upsert:
  assumes a: "accepted conv c" and p: "c attr \<noteq> None"
  shows "key_step conv attr c st = upsert attr (stored conv c) st"
proof -
  from p obtain v where v: "c attr = Some v" by auto
  from stored_key [OF a v] obtain k where
    k: "conv attr v = Some k" and s: "stored conv c attr = Some k" by blast
  have g: "get_none c attr = v" "get_none (stored conv c) attr = k"
    using v s by (simp_all add: get_none_def get_or_def)
  obtain rows l u where st: "st = (rows, l, u)" by (cases st)
  have 1: "orm_get conv attr v rows = find_row attr k rows"
    using k by (simp add: orm_get_def find_row_def)
  have 2: "orm_set conv attr v c rows = Inr (write_row attr k (stored conv c) rows)"
    using a k by (simp add: orm_set_def write_row_def)
  have 3: "orm_create conv c rows = Inr (add_row (stored conv c) rows)"
    using a by (simp add: orm_create_def add_row_def)
  show ?thesis
    unfolding st key_step_def upsert_def g
    by (simp add: 1 2 3 split: sum.splits option.splits)
qed

lemma key_step_rejected:
  assumes a: "\<not> accepted conv c"
  shows "\<exists>e. key_step conv attr c (rows, l, u) = Inl e"
proof (cases "orm_get conv attr (get_none c attr) rows")
  case (Inl e)
  then show ?thesis by (simp add: key_step_def)
next
  case (Inr found)
  with a show ?thesis
    by (cases found) (simp_all add: key_step_def orm_set_def orm_create_def)
qed

lemma load_employee_step:
  "load_employee convert e st =
     (if has_employee_id e then key_step (mapper_value Employee convert) ''employee_id'' e st
      else Inr st)"
  by (cases st) (simp add: load_employee_def key_step_def has_employee_id_def)

lemma load_customer_step:
  "has_email c \<Longrightarrow>
     load_customer convert c st =
       (if has_name c then key_step (mapper_value Customer convert) ''email'' c st else Inr st)"
  by (cases st) (simp add: load_customer_def key_step_def has_name_def has_email_def)

lemma load_customer_unnamed: "\<not> has_name c \<Longrightarrow> load_customer convert c st = Inr st"
  by (cases st) (simp add: load_customer_def has_name_def)

lemma load_customer_append:
  "has_name c \<Longrightarrow> \<not> has_email c \<Longrightarrow> accepted (mapper_value Customer convert) c \<Longrightarrow>
     load_customer convert c (rows, l, u) =
       Inr (rows @ [stored (mapper_value Customer convert) c], l + 1, u)"
  by (simp add: load_customer_def has_name_def has_email_def orm_create_def)

lemma load_customer_refused:
  assumes n: "has_name c" and a: "\<not> accepted (mapper_value Customer convert) c"
  shows "\<exists>e. load_customer convert c (rows, l, u) = Inl e"
proof (cases "has_email c")
  case True
  from load_customer_step [OF True, of convert "(rows, l, u)"] n
    key_step_rejected [OF a, of "''email''" rows l u]
  show ?thesis by simp
next
  case False
  with n a show ?thesis
    by (simp add: load_customer_def has_name_def has_email_def orm_create_def)
qed

lemma email_None_refused:
  "c ''email'' = Some PyNone \<Longrightarrow> \<not> accepted (mapper_value Customer convert) c"
proof
  assume e: "c ''email'' = Some PyNone" and a: "accepted (mapper_value Customer convert) c"
  from stored_key [OF a e] obtain k where
    "mapper_value Customer convert ''email'' PyNone = Some k" by blast
  then show False by (simp add: mapper_value_def Customer_def)
qed

lemma load_employees_loop_upsert:
  "list_all (\<lambda>e. has_employee_id e \<longrightarrow> accepted (mapper_value Employee convert) e) es \<Longrightarrow>
     load_employees_loop convert es st =
       upsert_loop ''employee_id''
         (map (stored (mapper_value Employee convert)) (filter has_employee_id es)) st"
proof (induction es arbitrary: st)
  case Nil
  then show ?case by simp
next
  case (Cons e es)
  from Cons.prems have
    rest: "list_all (\<lambda>e. has_employee_id e \<longrightarrow> accepted (mapper_value Employee convert) e) es"
    by simp
  show ?case
  proof (cases "has_employee_id e")
    case True
    with Cons.prems have a: "accepted (mapper_value Employee convert) e" by simp
    from True have p: "e ''employee_id'' \<noteq> None"
      by (simp add: has_employee_id_def truthy_present)
    have "load_employee convert e st =
            upsert ''employee_id'' (stored (mapper_value Employee convert) e) st"
      using True key_step_upsert [OF a p, of st] by (simp add: load_employee_step)
    with True Cons.IH [OF rest] show ?thesis by (simp split: sum.splits)
  next
    case False
    then have "load_employee convert e st = Inr st" by (simp add: load_employee_step)
    with False Cons.IH [OF rest] show ?thesis by simp
  qed
qed

lemma load_customers_loop_upsert:
  "list_all (\<lambda>c. has_name c \<longrightarrow> has_email c \<and> accepted (mapper_value Customer convert) c) cs \<Longrightarrow>
     load_customers_loop convert cs st =
       upsert_loop ''email'' (map (stored (mapper_value Customer convert)) (filter has_name cs)) st"
proof (induction cs arbitrary: st)
  case Nil
  then show ?case by simp
next
  case (Cons c cs)
  from Cons.prems have
    rest: "list_all (\<lambda>c. has_name c \<longrightarrow> has_email c \<and> accepted (mapper_value Customer convert) c) cs"
    by simp
  show ?case
  proof (cases "has_name c")
    case True
    with Cons.prems have e: "has_email c" and a: "accepted (mapper_value Customer convert) c"
      by simp_all
    from e have p: "c ''email'' \<noteq> None" by (simp add: has_email_def truthy_present)
    have "load_customer convert c st =
            upsert ''email'' (stored (mapper_value Customer convert) c) st"
      using True key_step_upsert [OF a p, of st] by (simp add: load_customer_step [OF e])
    with True Cons.IH [OF rest] show ?thesis by (simp split: sum.splits)
  next
    case False
    then have "load_customer convert c st = Inr st" by (rule load_customer_unnamed)
    with False Cons.IH [OF rest] show ?thesis by simp
  qed
qed

lemma load_customers_loop_append:
  "list_all (\<lambda>c. has_name c \<and> \<not> has_email c \<and> accepted (mapper_value Customer convert) c) ns \<Longrightarrow>
     load_customers_loop convert ns (rows, l, u) =
       Inr (rows @ map (stored (mapper_value Customer convert)) ns, l + length ns, u)"
proof (induction ns arbitrary: rows l)
  case Nil
  then show ?case by simp
next
  case (Cons c ns)
  from Cons.prems have c: "has_name c" "\<not> has_email c" "accepted (mapper_value Customer convert) c"
    and rest: "list_all (\<lambda>c. has_name c \<and> \<not> has_email c \<and>
                 accepted (mapper_value Customer convert) c) ns"
    by simp_all
  from load_customer_append [OF c, of rows l u] Cons.IH [OF rest]
  show ?case by simp
qed

lemma load_customers_loop_refused:
  "c \<in> set cs \<Longrightarrow> has_name c \<Longrightarrow> \<not> accepted (mapper_value Customer convert) c \<Longrightarrow>
     \<exists>e. load_customers_loop convert cs st = Inl e"
proof (induction cs arbitrary: st)
  case Nil
  then show ?case by simp
next
  case (Cons a cs)
  obtain rows l u where st: "st = (rows, l, u)" by (cases st)
  show ?case
  proof (cases "load_customer convert a st")
    case (Inl e)
    then show ?thesis by simp
  next
    case (Inr st')
    have "a \<noteq> c"
    proof
      assume "a = c"
      with load_customer_refused [OF Cons.prems(2,3), of rows l u] Inr st show False by simp
    qed
    with Cons.prems(1) have "c \<in> set cs" by simp
    from Cons.IH [OF this Cons.prems(2,3), of st'] Inr show ?thesis by simp
  qed
qed

text \<open>
  A converter for the examples: every value is a string, stored without the whitespace
  around it, as the mapper does for a string attribute.
\<close>

definition string_converter :: conversion where
  "string_converter attr v = (case v of PyStr s \<Rightarrow> Some (PyStr (strip s)) | _ \<Rightarrow> None)"

definition emp_e1 :: fields where
  "emp_e1 = [''employee_id'' \<mapsto> PyStr ''E1'', ''first_name'' \<mapsto> PyStr ''Ann'']"

definition emp_e1_moved :: fields where
  "emp_e1_moved = [''employee_id'' \<mapsto> PyStr ''E1'', ''department'' \<mapsto> PyStr ''Sales'']"

definition row_ann :: fields where
  "row_ann = [''name'' \<mapsto> PyStr ''Ann Lee'', ''email'' \<mapsto> PyStr ''ann@example.org'']"

definition row_anon :: fields where
  "row_anon = [''name'' \<mapsto> PyStr ''Bob'']"

definition row_no_email :: fields where
  "row_no_email = [''name'' \<mapsto> PyStr ''Bob'', ''email'' \<mapsto> PyNone]"

definition row_ann_phone :: fields where
  "row_ann_phone = [''name'' \<mapsto> PyStr ''Ann Lee'', ''email'' \<mapsto> PyStr ''ann@example.org'',
                    ''phone_number'' \<mapsto> PyStr ''555'']"

definition row_first_only :: fields where
  "row_first_only = [''first_name'' \<mapsto> PyStr ''Ann'']"

lemma unique_key_Nil: "unique_key attr []"
  by (simp add: unique_key_def cnt_def)

lemma strip_words:
  "strip ''E1'' = ''E1''" "strip ''Ann'' = ''Ann''" "strip ''Sales'' = ''Sales''"
  "strip ''Ann Lee'' = ''Ann Lee''" "strip ''ann@example.org'' = ''ann@example.org''"
  "strip ''Bob'' = ''Bob''" "strip ''555'' = ''555''"
  by (simp_all add: strip_def py_isspace_def)

lemma customer_examples:
  "accepted (mapper_value Customer string_converter) row_ann"
  "accepted (mapper_value Customer string_converter) row_anon"
  "accepted (mapper_value Customer string_converter) row_ann_phone"
  "stored (mapper_value Customer string_converter) row_ann = row_ann"
  "stored (mapper_value Customer string_converter) row_anon = row_anon"
  "stored (mapper_value Customer string_converter) row_ann_phone = row_ann_phone"
  by (auto simp: accepted_def stored_def mapper_value_def Customer_def string_converter_def
      row_ann_def row_anon_def row_ann_phone_def strip_words)

lemma employee_examples:
  "accepted (mapper_value Employee string_converter) emp_e1"
  "accepted (mapper_value Employee string_converter) emp_e1_moved"
  "stored (mapper_value Employee string_converter) emp_e1 = emp_e1"
  "stored (mapper_value Employee string_converter) emp_e1_moved = emp_e1_moved"
  by (auto simp: accepted_def stored_def mapper_value_def Employee_def string_converter_def
      emp_e1_def emp_e1_moved_def strip_words)

lemma guard_examples:
  "has_employee_id emp_e1" "has_employee_id emp_e1_moved" "\<not> has_employee_id emp_noid"
  "has_name row_ann" "has_email row_ann" "has_name row_anon" "\<not> has_email row_anon"
  "has_name row_ann_phone" "has_email row_ann_phone" "\<not> has_name Map.empty"
  "has_name row_no_email" "\<not> has_email row_no_email" "\<not> has_name row_first_only"
  by (simp_all add: has_employee_id_def has_name_def has_email_def get_none_def get_or_def
      emp_e1_def emp_e1_moved_def emp_noid_def row_ann_def row_anon_def row_ann_phone_def
      row_no_email_def row_first_only_def)

lemma filter_none: "\<forall>x\<in>set xs. \<not> P x \<Longrightarrow> filter P xs = []"
  by (simp add: filter_empty_conv)

lemma map_unchanged: "\<forall>x\<in>set xs. \<not> P x \<Longrightarrow> map (\<lambda>x. if P x then f x else x) xs = xs"
  by (induction xs) simp_all

text \<open>
  Claim C1, as the code has it. Take records that the mapper accepts and for which it
  stores a non-empty key: the \<^verbatim>\<open>employee_id\<close> of every employee record that has one,
  and the email of every customer record that has a name, which then must have a
  non-empty email. From a table in which no two rows share a non-empty key the loader
  completes, and run again on its result with the same records it leaves every row as
  it is and adds none: it reports no row added and every such record updated. Customer
  records with a name and without an email or with an empty one, when the mapper
  accepts them, are appended by every run, whatever the table holds, so that a second
  run stores them twice. A run with a customer record that has a name and whose email
  is \<^verbatim>\<open>None\<close>, which the mapper refuses, raises.
\<close>

theorem loader_rerun_idempotent:
  "(unique_key ''employee_id'' erows \<and>
    list_all (\<lambda>e. has_employee_id e \<longrightarrow>
                loadable (mapper_value Employee convert) ''employee_id'' e) es \<longrightarrow>
      (\<exists>rows' l u.
          load_employees convert es erows = Inr (rows', [EmployeesLoaded l u]) \<and>
          load_employees convert es rows' = Inr (rows', [EmployeesLoaded 0 (l + u)]))) \<and>
   (unique_key ''email'' crows \<and>
    list_all (\<lambda>c. has_name c \<longrightarrow>
                has_email c \<and> loadable (mapper_value Customer convert) ''email'' c) cs \<longrightarrow>
      (\<exists>rows' l u.
          load_customers convert cs crows = Inr (rows', [CustomersLoaded l u]) \<and>
          load_customers convert cs rows' = Inr (rows', [CustomersLoaded 0 (l + u)]))) \<and>
   (list_all (\<lambda>c. has_name c \<and> \<not> has_email c \<and>
                accepted (mapper_value Customer convert) c) ns \<longrightarrow>
      load_customers convert ns rows =
        Inr (rows @ map (stored (mapper_value Customer convert)) ns,
             [CustomersLoaded (length ns) 0])) \<and>
   ((\<exists>c\<in>set bs. has_name c \<and> c ''email'' = Some PyNone) \<longrightarrow>
      (\<exists>e. load_customers convert bs rows = Inl e))"
proof (intro conjI impI)
  assume a: "unique_key ''employee_id'' erows \<and>
    list_all (\<lambda>e. has_employee_id e \<longrightarrow>
                loadable (mapper_value Employee convert) ''employee_id'' e) es"
  then have u: "unique_key ''employee_id'' erows"
    and e: "list_all (\<lambda>e. has_employee_id e \<longrightarrow>
                loadable (mapper_value Employee convert) ''employee_id'' e) es" by simp_all
  let ?ns = "map (stored (mapper_value Employee convert)) (filter has_employee_id es)"
  from e have acc: "list_all (\<lambda>e. has_employee_id e \<longrightarrow>
                      accepted (mapper_value Employee convert) e) es"
    by (simp add: list_all_iff loadable_def)
  from e have "\<forall>n\<in>set ?ns. truthy (get_none n ''employee_id'')"
    by (auto simp: list_all_iff loadable_def)
  from loader_twice [OF u this] obtain rows' l u where
    "upsert_loop ''employee_id'' ?ns (erows, 0, 0) = Inr (rows', l, u)"
    "upsert_loop ''employee_id'' ?ns (rows', 0, 0) = Inr (rows', 0, l + u)"
    by blast
  then have "load_employees convert es erows = Inr (rows', [EmployeesLoaded l u]) \<and>
             load_employees convert es rows' = Inr (rows', [EmployeesLoaded 0 (l + u)])"
    by (simp add: load_employees_def load_employees_loop_upsert [OF acc])
  then show "\<exists>rows' l u.
          load_employees convert es erows = Inr (rows', [EmployeesLoaded l u]) \<and>
          load_employees convert es rows' = Inr (rows', [EmployeesLoaded 0 (l + u)])" by blast
next
  assume a: "unique_key ''email'' crows \<and>
    list_all (\<lambda>c. has_name c \<longrightarrow>
                has_email c \<and> loadable (mapper_value Customer convert) ''email'' c) cs"
  then have u: "unique_key ''email'' crows"
    and e: "list_all (\<lambda>c. has_name c \<longrightarrow>
                has_email c \<and> loadable (mapper_value Customer convert) ''email'' c) cs"
    by simp_all
  let ?ns = "map (stored (mapper_value Customer convert)) (filter has_name cs)"
  from e have acc: "list_all (\<lambda>c. has_name c \<longrightarrow>
                      has_email c \<and> accepted (mapper_value Customer convert) c) cs"
    by (simp add: list_all_iff loadable_def)
  from e have "\<forall>n\<in>set ?ns. truthy (get_none n ''email'')"
    by (auto simp: list_all_iff loadable_def)
  from loader_twice [OF u this] obtain rows' l u where
    "upsert_loop ''email'' ?ns (crows, 0, 0) = Inr (rows', l, u)"
    "upsert_loop ''email'' ?ns (rows', 0, 0) = Inr (rows', 0, l + u)"
    by blast
  then have "load_customers convert cs crows = Inr (rows', [CustomersLoaded l u]) \<and>
             load_customers convert cs rows' = Inr (rows', [CustomersLoaded 0 (l + u)])"
    by (simp add: load_customers_def load_customers_loop_upsert [OF acc])
  then show "\<exists>rows' l u.
          load_customers convert cs crows = Inr (rows', [CustomersLoaded l u]) \<and>
          load_customers convert cs rows' = Inr (rows', [CustomersLoaded 0 (l + u)])" by blast
next
  assume "list_all (\<lambda>c. has_name c \<and> \<not> has_email c \<and>
                accepted (mapper_value Customer convert) c) ns"
  from load_customers_loop_append [OF this, of rows 0 0]
  show "load_customers convert ns rows =
        Inr (rows @ map (stored (mapper_value Customer convert)) ns,
             [CustomersLoaded (length ns) 0])"
    by (simp add: load_customers_def)
next
  assume "\<exists>c\<in>set bs. has_name c \<and> c ''email'' = Some PyNone"
  then obtain c where c: "c \<in> set bs" "has_name c" "c ''email'' = Some PyNone" by blast
  from email_None_refused [of c convert] c(3)
  have "\<not> accepted (mapper_value Customer convert) c" by simp
  from load_customers_loop_refused [OF c(1,2) this, of "(rows, 0, 0)"]
  show "\<exists>e. load_customers convert bs rows = Inl e"
    by (auto simp: load_customers_def)
qed

theorem loader_rerun_idempotent_witness:
  "(\<exists>rows' l u.
      load_employees string_converter [emp_e1, emp_noid, emp_e1_moved] [] =
        Inr (rows', [EmployeesLoaded l u]) \<and>
      load_employees string_converter [emp_e1, emp_noid, emp_e1_moved] rows' =
        Inr (rows', [EmployeesLoaded 0 (l + u)])) \<and>
   (\<exists>rows' l u.
      load_customers string_converter [row_ann, Map.empty] [] =
        Inr (rows', [CustomersLoaded l u]) \<and>
      load_customers string_converter [row_ann, Map.empty] rows' =
        Inr (rows', [CustomersLoaded 0 (l + u)])) \<and>
   load_customers string_converter [row_anon, row_anon] [row_ann] =
     Inr ([row_ann, row_anon, row_anon], [CustomersLoaded 2 0]) \<and>
   (\<exists>e. load_customers string_converter [row_ann, row_no_email] [row_ann] = Inl e)"
proof -
  have e: "list_all (\<lambda>e. has_employee_id e \<longrightarrow>
              loadable (mapper_value Employee string_converter) ''employee_id'' e)
             [emp_e1, emp_noid, emp_e1_moved]"
    by (simp add: guard_examples loadable_def employee_examples)
       (simp add: emp_e1_def emp_e1_moved_def get_none_def get_or_def)
  have c: "list_all (\<lambda>c. has_name c \<longrightarrow>
              has_email c \<and> loadable (mapper_value Customer string_converter) ''email'' c)
             [row_ann, Map.empty]"
    by (simp add: guard_examples loadable_def customer_examples)
       (simp add: row_ann_def get_none_def get_or_def)
  have n: "list_all (\<lambda>c. has_name c \<and> \<not> has_email c \<and>
              accepted (mapper_value Customer string_converter) c) [row_anon, row_anon]"
    by (simp add: guard_examples customer_examples)
  have ne: "row_no_email ''email'' = Some PyNone" by (simp add: row_no_email_def)
  then have b: "\<exists>c\<in>set [row_ann, row_no_email]. has_name c \<and> c ''email'' = Some PyNone"
    by (simp add: guard_examples)
  from loader_rerun_idempotent [of "[]" string_converter "[emp_e1, emp_noid, emp_e1_moved]"
      "[]" "[row_ann, Map.empty]" "[row_anon, row_anon]" "[row_ann]" "[row_ann, row_no_email]"]
    e c n b
  show ?thesis by (simp add: unique_key_Nil customer_examples guard_examples ne)
qed

text \<open>
  A customer with a name and no email is inserted by every run: after the second run
  the table holds it twice.
\<close>

theorem load_customers_duplicates_counterexample:
  "load_customers string_converter [row_anon] [] = Inr ([row_anon], [CustomersLoaded 1 0]) \<and>
   load_customers string_converter [row_anon] [row_anon] =
     Inr ([row_anon, row_anon], [CustomersLoaded 1 0])"
  by (simp add: load_customers_def load_customer_def orm_create_def customer_examples)
     (simp add: row_anon_def get_none_def get_or_def)

text \<open>
  Claim C7, as the code has it. A record without a non-empty name is passed over. Take a
  record with a name. When the mapper accepts it and it has an email, stored as a
  non-empty value, the loader looks for the rows with that email: it overwrites the
  only such row with the fields of the record as stored and counts an update, or, when
  there is none, appends the record and counts an insertion. When the mapper accepts it
  and it has no email or an empty one, the loader appends it whatever the table holds.
  When the mapper refuses the record, which gives no \<^verbatim>\<open>id\<close>, the loader raises; it
  refuses every record whose email is \<^verbatim>\<open>None\<close>.
\<close>

theorem load_customer_by_email:
  "(\<not> has_name c \<longrightarrow> load_customer convert c st = Inr st) \<and>
   (has_name c \<and> has_email c \<and> loadable (mapper_value Customer convert) ''email'' c \<and>
    r ''email'' = stored (mapper_value Customer convert) c ''email'' \<and>
    (\<forall>x\<in>set (pre @ post). x ''email'' \<noteq> stored (mapper_value Customer convert) c ''email'') \<longrightarrow>
      load_customer convert c (pre @ r # post, l, u) =
        Inr (pre @ (r ++ stored (mapper_value Customer convert) c) # post, l, u + 1)) \<and>
   (has_name c \<and> has_email c \<and> loadable (mapper_value Customer convert) ''email'' c \<and>
    (\<forall>x\<in>set rows. x ''email'' \<noteq> stored (mapper_value Customer convert) c ''email'') \<longrightarrow>
      load_customer convert c (rows, l, u) =
        Inr (rows @ [stored (mapper_value Customer convert) c], l + 1, u)) \<and>
   (has_name c \<and> \<not> has_email c \<and> accepted (mapper_value Customer convert) c \<longrightarrow>
      load_customer convert c (rows, l, u) =
        Inr (rows @ [stored (mapper_value Customer convert) c], l + 1, u)) \<and>
   (has_name c \<and> c ''id'' = None \<and> \<not> accepted (mapper_value Customer convert) c \<longrightarrow>
      (\<exists>e. load_customer convert c (rows, l, u) = Inl e)) \<and>
   (c ''email'' = Some PyNone \<longrightarrow> \<not> accepted (mapper_value Customer convert) c)"
proof (intro conjI impI)
  assume "\<not> has_name c"
  then show "load_customer convert c st = Inr st" by (rule load_customer_unnamed)
next
  let ?n = "stored (mapper_value Customer convert) c"
  assume a: "has_name c \<and> has_email c \<and> loadable (mapper_value Customer convert) ''email'' c \<and>
    r ''email'' = ?n ''email'' \<and> (\<forall>x\<in>set (pre @ post). x ''email'' \<noteq> ?n ''email'')"
  then have n: "has_name c" and e: "has_email c"
    and acc: "accepted (mapper_value Customer convert) c"
    and t: "truthy (get_none ?n ''email'')"
    and r: "r ''email'' = ?n ''email''"
    and o: "\<forall>x\<in>set pre. x ''email'' \<noteq> ?n ''email''" "\<forall>x\<in>set post. x ''email'' \<noteq> ?n ''email''"
    by (auto simp: loadable_def)
  from e have p: "c ''email'' \<noteq> None" by (simp add: has_email_def truthy_present)
  from t obtain k where k: "?n ''email'' = Some k"
    using truthy_present [of ?n "''email''"] by auto
  then have g: "get_none ?n ''email'' = k" by (simp add: get_none_def get_or_def)
  have f: "filter (\<lambda>x. x ''email'' = Some k) (pre @ r # post) = [r]"
    using o r k by (simp add: filter_none)
  have m: "write_row ''email'' k ?n (pre @ r # post) = pre @ (r ++ ?n) # post"
    using o r k by (simp add: write_row_def map_unchanged)
  have og: "find_row ''email'' k (pre @ r # post) = Inr (Some r)"
    unfolding find_row_def f by simp
  have "load_customer convert c (pre @ r # post, l, u) = upsert ''email'' ?n (pre @ r # post, l, u)"
    using n key_step_upsert [OF acc p, of "(pre @ r # post, l, u)"]
    by (simp add: load_customer_step [OF e])
  also have "\<dots> = Inr (pre @ (r ++ ?n) # post, l, u + 1)"
    unfolding upsert_def g by (simp add: og m)
  finally show "load_customer convert c (pre @ r # post, l, u) =
        Inr (pre @ (r ++ ?n) # post, l, u + 1)" .
next
  let ?n = "stored (mapper_value Customer convert) c"
  assume a: "has_name c \<and> has_email c \<and> loadable (mapper_value Customer convert) ''email'' c \<and>
    (\<forall>x\<in>set rows. x ''email'' \<noteq> ?n ''email'')"
  then have n: "has_name c" and e: "has_email c"
    and acc: "accepted (mapper_value Customer convert) c"
    and t: "truthy (get_none ?n ''email'')"
    and o: "\<forall>x\<in>set rows. x ''email'' \<noteq> ?n ''email''"
    by (auto simp: loadable_def)
  from e have p: "c ''email'' \<noteq> None" by (simp add: has_email_def truthy_present)
  from t obtain k where k: "?n ''email'' = Some k"
    using truthy_present [of ?n "''email''"] by auto
  then have g: "get_none ?n ''email'' = k" by (simp add: get_none_def get_or_def)
  have f: "filter (\<lambda>x. x ''email'' = Some k) rows = []"
    using o k by (simp add: filter_none)
  have og: "find_row ''email'' k rows = Inr None"
    unfolding find_row_def f by simp
  have "load_customer convert c (rows, l, u) = upsert ''email'' ?n (rows, l, u)"
    using n key_step_upsert [OF acc p, of "(rows, l, u)"]
    by (simp add: load_customer_step [OF e])
  also have "\<dots> = Inr (rows @ [?n], l + 1, u)"
    unfolding upsert_def g by (simp add: og add_row_def)
  finally show "load_customer convert c (rows, l, u) = Inr (rows @ [?n], l + 1, u)" .
next
  assume "has_name c \<and> \<not> has_email c \<and> accepted (mapper_value Customer convert) c"
  then show "load_customer convert c (rows, l, u) =
        Inr (rows @ [stored (mapper_value Customer convert) c], l + 1, u)"
    by (simp add: load_customer_append)
next
  assume "has_name c \<and> c ''id'' = None \<and> \<not> accepted (mapper_value Customer convert) c"
  then show "\<exists>e. load_customer convert c (rows, l, u) = Inl e"
    by (simp add: load_customer_refused)
next
  assume "c ''email'' = Some PyNone"
  then show "\<not> accepted (mapper_value Customer convert) c"
    using email_None_refused [of c convert] by simp
qed

theorem load_customer_by_email_witness:
  "load_customer string_converter row_first_only ([row_anon], 0, 0) = Inr ([row_anon], 0, 0) \<and>
   load_customer string_converter row_ann_phone ([row_anon] @ row_ann # [row_anon], 0, 0) =
     Inr ([row_anon] @ (row_ann ++ row_ann_phone) # [row_anon], 0, 0 + 1) \<and>
   load_customer string_converter row_ann_phone ([row_anon], 0, 0) =
     Inr ([row_anon] @ [row_ann_phone], 0 + 1, 0) \<and>
   load_customer string_converter row_anon ([row_anon], 0, 0) =
     Inr ([row_anon] @ [row_anon], 0 + 1, 0) \<and>
   (\<exists>e. load_customer string_converter row_no_email ([row_anon], 0, 0) = Inl e) \<and>
   \<not> accepted (mapper_value Customer string_converter) row_no_email"
proof -
  have k: "loadable (mapper_value Customer string_converter) ''email'' row_ann_phone"
    by (simp add: loadable_def customer_examples)
       (simp add: row_ann_phone_def get_none_def get_or_def)
  have s: "row_ann ''email'' = row_ann_phone ''email''"
    "row_anon ''email'' \<noteq> row_ann_phone ''email''"
    by (simp_all add: row_ann_def row_ann_phone_def row_anon_def)
  have i: "row_no_email ''id'' = None" "row_no_email ''email'' = Some PyNone"
    by (simp_all add: row_no_email_def)
  from load_customer_by_email [of row_first_only string_converter "([row_anon], 0, 0)"]
  have 1: "load_customer string_converter row_first_only ([row_anon], 0, 0) =
             Inr ([row_anon], 0, 0)"
    by (simp add: guard_examples)
  from load_customer_by_email [of row_ann_phone string_converter _ row_ann "[row_anon]"
      "[row_anon]" 0 0 "[row_anon]"] k s
  have 2: "load_customer string_converter row_ann_phone ([row_anon] @ row_ann # [row_anon], 0, 0) =
          Inr ([row_anon] @ (row_ann ++ row_ann_phone) # [row_anon], 0, 0 + 1)"
    "load_customer string_converter row_ann_phone ([row_anon], 0, 0) =
       Inr ([row_anon] @ [row_ann_phone], 0 + 1, 0)"
    by (simp_all add: guard_examples customer_examples)
  from load_customer_by_email [of row_anon string_converter _ row_ann "[]" "[]" 0 0 "[row_anon]"]
  have 3: "load_customer string_converter row_anon ([row_anon], 0, 0) =
             Inr ([row_anon] @ [row_anon], 0 + 1, 0)"
    by (simp add: guard_examples customer_examples)
  from load_customer_by_email [of row_no_email string_converter _ row_ann "[]" "[]" 0 0
      "[row_anon]"] i
  have 4: "\<not> accepted (mapper_value Customer string_converter) row_no_email"
    "\<exists>e. load_customer string_converter row_no_email ([row_anon], 0, 0) = Inl e"
    by (simp_all add: guard_examples)
  from 1 2 3 4 show ?thesis by (intro conjI)
qed

text \<open>
  A record without a name is passed over: it is neither matched nor inserted.
\<close>

theorem load_customers_skips_unnamed_counterexample:
  "load_customers string_converter [row_first_only] [] = Inr ([], [CustomersLoaded 0 0])"
  by (simp add: load_customers_def load_customer_def row_first_only_def get_none_def get_or_def)

section \<open>Properties of the prompt extraction\<close>

text \<open>
  The condition of the claim, read off the text alone: \<open>seen\<close> says whether a line
  starting with \<^verbatim>\<open>Timestamp:\<close> has come since the last line starting with
  \<^verbatim>\<open>Employee ID:\<close>, and every line starting with \<^verbatim>\<open>Prompt:\<close> needs it.
\<close>

fun prompts_follow_timestamps :: "bool \<Rightarrow> string list \<Rightarrow> bool" where
  "prompts_follow_timestamps seen [] = True"
| "prompts_follow_timestamps seen (raw # rest) =
     (let line = strip raw in
      if startswith line ''Employee ID:'' then prompts_follow_timestamps False rest
      else if startswith line ''Timestamp:'' then prompts_follow_timestamps True rest
      else if startswith line ''Prompt:'' then seen \<and> prompts_follow_timestamps seen rest
      else prompts_follow_timestamps seen rest)"

text \<open>
  The timestamp lines that come while a non-empty identifier is current, each with that
  identifier and its own text.
\<close>

definition line_value :: "string \<Rightarrow> string" where
  "line_value line = (case after_colon line of Inl e \<Rightarrow> [] | Inr v \<Rightarrow> strip v)"

fun stamped :: "string list \<Rightarrow> string option \<Rightarrow> (string \<times> string) list" where
  "stamped [] current_id = []"
| "stamped (raw # rest) current_id =
     (let line = strip raw in
      if startswith line ''Employee ID:'' then stamped rest (Some (line_value line))
      else if startswith line ''Timestamp:'' \<and> is_current current_id
      then (the current_id, line_value line) # stamped rest current_id
      else stamped rest current_id)"

text \<open>The identifier and timestamp of every entry of \<^verbatim>\<open>by_id\<close>, in the order of the output.\<close>

definition stamps :: "(pyval \<times> (string \<times> string) list) list \<Rightarrow> (pyval \<times> string) list" where
  "stamps by_id = concat (map (\<lambda>(k, items). map (\<lambda>(t, p). (k, t)) items) by_id)"

lemma stamps_Nil [simp]: "stamps [] = []"
  by (simp add: stamps_def)

lemma stamps_Cons [simp]:
  "stamps ((k, items) # d) = map (\<lambda>(t, p). (k, t)) items @ stamps d"
  by (simp add: stamps_def)

lemma after_colon_prefix:
  assumes "startswith line p" and "CHR '':'' \<in> set p"
  shows "\<exists>v. after_colon line = Inr v"
proof -
  from assms(1) have "line = p @ drop (length p) line"
    by (metis append_take_drop_id startswith_def)
  then obtain rest where l: "line = p @ rest" ..
  have "dropWhile (\<lambda>c. c \<noteq> CHR '':'') line \<noteq> []"
    unfolding l using assms(2) by (simp add: dropWhile_append1 dropWhile_eq_Nil_conv)
  then show ?thesis
    by (cases "dropWhile (\<lambda>c. c \<noteq> CHR '':'') line") (simp_all add: after_colon_def)
qed

lemma after_colon_value: "after_colon line = Inr v \<Longrightarrow> line_value line = strip v"
  by (simp add: line_value_def)

lemma not_both:
  "startswith line ''Timestamp:'' \<Longrightarrow> \<not> startswith line ''Prompt:''"
  by (cases line) (auto simp: startswith_def)

lemma stamps_append_item:
  "dict_get d (PyStr s) = Some old \<Longrightarrow>
     mset (stamps (dict_set (PyStr s) (old @ [x]) d)) = mset (stamps d) + {#(PyStr s, fst x)#}"
proof (induction d)
  case Nil
  then show ?case by simp
next
  case (Cons p d)
  obtain k0 v0 where p: "p = (k0, v0)" by (cases p)
  show ?case
  proof (cases "k0 = PyStr s")
    case True
    with Cons.prems p have "v0 = old" by simp
    with True p show ?thesis by (simp add: case_prod_unfold)
  next
    case False
    with Cons p show ?thesis by simp
  qed
qed

lemma stamps_same_times:
  "dict_get d (PyStr s) = Some old \<Longrightarrow> map fst new = map fst old \<Longrightarrow>
     stamps (dict_set (PyStr s) new d) = stamps d"
proof (induction d)
  case Nil
  then show ?case by simp
next
  case (Cons p d)
  obtain k0 v0 where p: "p = (k0, v0)" by (cases p)
  show ?case
  proof (cases "k0 = PyStr s")
    case True
    with Cons.prems p have "v0 = old" by simp
    moreover have fs: "map (\<lambda>(t, p). (k0, t)) xs = map (\<lambda>t. (k0, t)) (map fst xs)"
      for xs :: "(string \<times> string) list"
      by (simp add: case_prod_unfold)
    have "map (\<lambda>(t, p). (k0, t)) new = map (\<lambda>(t, p). (k0, t)) old"
      unfolding fs using Cons.prems(2) by simp
    ultimately show ?thesis using True p by simp
  next
    case False
    with Cons p show ?thesis by simp
  qed
qed

lemma stamps_new_key:
  "dict_get d k = None \<Longrightarrow> stamps (dict_set k [] d) = stamps d"
  by (induction d) (auto split: if_splits)

text \<open>
  What the loop keeps true: the current identifier has an entry, and the entry is not
  empty once a timestamp line has come under it.
\<close>

definition loop_inv ::
  "(pyval \<times> (string \<times> string) list) list \<Rightarrow> string option \<Rightarrow> bool \<Rightarrow> bool" where
  "loop_inv by_id current_id seen =
     (if is_current current_id
      then (case dict_get by_id (PyStr (the current_id)) of
              None \<Rightarrow> False
            | Some items \<Rightarrow> seen \<longrightarrow> items \<noteq> [])
      else True)"

lemma set_last_prompt_ok:
  "items \<noteq> [] \<Longrightarrow>
     \<exists>items'. set_last_prompt p items = Inr items' \<and> map fst items' = map fst items \<and>
              items' \<noteq> []"
proof -
  assume n: "items \<noteq> []"
  then have "butlast items @ [last items] = items" by simp
  then have "map fst (butlast items @ [last items]) = map fst items" by simp
  then have "map fst (butlast items) @ [fst (last items)] = map fst items" by simp
  with n show ?thesis by (simp add: set_last_prompt_def)
qed

lemma prompts_loop_stamps:
  "prompts_follow_timestamps seen lines \<Longrightarrow> loop_inv by_id current_id seen \<Longrightarrow>
     \<exists>d. prompts_loop lines by_id current_id = Inr d \<and>
         mset (stamps d) =
           mset (stamps by_id) + mset (map (\<lambda>(i, t). (PyStr i, t)) (stamped lines current_id))"
proof (induction lines arbitrary: by_id current_id seen)
  case Nil
  then show ?case by simp
next
  case (Cons raw rest)
  let ?line = "strip raw"
  consider (emp) "startswith ?line ''Employee ID:''"
    | (ts) "\<not> startswith ?line ''Employee ID:''" "startswith ?line ''Timestamp:''"
        "is_current current_id"
    | (ts_skip) "\<not> startswith ?line ''Employee ID:''" "startswith ?line ''Timestamp:''"
        "\<not> is_current current_id"
    | (pr) "\<not> startswith ?line ''Employee ID:''" "\<not> startswith ?line ''Timestamp:''"
        "startswith ?line ''Prompt:''" "is_current current_id"
    | (other) "\<not> startswith ?line ''Employee ID:''" "\<not> startswith ?line ''Timestamp:''"
        "\<not> (startswith ?line ''Prompt:'' \<and> is_current current_id)"
    by blast
  then show ?case
  proof cases
    case emp
    from after_colon_prefix [OF emp] obtain v where v: "after_colon ?line = Inr v" by auto
    let ?k = "PyStr (strip v)"
    let ?d = "case dict_get by_id ?k of None \<Rightarrow> dict_set ?k [] by_id | Some x \<Rightarrow> by_id"
    have wf: "prompts_follow_timestamps False rest"
      using Cons.prems(1) emp by (simp add: Let_def)
    have inv: "loop_inv ?d (Some (strip v)) False"
      by (cases "dict_get by_id ?k") (simp_all add: loop_inv_def dict_get_dict_set)
    have st: "stamps ?d = stamps by_id"
      by (cases "dict_get by_id ?k") (simp_all add: stamps_new_key)
    from Cons.IH [OF wf inv] obtain d where
      "prompts_loop rest ?d (Some (strip v)) = Inr d"
      "mset (stamps d) =
         mset (stamps ?d) + mset (map (\<lambda>(i, t). (PyStr i, t)) (stamped rest (Some (strip v))))"
      by blast
    then show ?thesis
      using emp v st by (simp add: Let_def after_colon_value [OF v])
  next
    case ts
    from after_colon_prefix [OF ts(2)] obtain v where v: "after_colon ?line = Inr v" by auto
    let ?k = "PyStr (the current_id)"
    from Cons.prems(2) ts(3) obtain items where items: "dict_get by_id ?k = Some items"
      by (auto simp: loop_inv_def split: option.splits)
    let ?d = "dict_set ?k (items @ [(strip v, [])]) by_id"
    have wf: "prompts_follow_timestamps True rest"
      using Cons.prems(1) ts by (simp add: Let_def)
    have inv: "loop_inv ?d current_id True"
      using ts(3) by (simp add: loop_inv_def dict_get_dict_set)
    have st: "mset (stamps ?d) = mset (stamps by_id) + {#(?k, strip v)#}"
      using stamps_append_item [OF items, of "(strip v, [])"] by simp
    from Cons.IH [OF wf inv] obtain d where
      "prompts_loop rest ?d current_id = Inr d"
      "mset (stamps d) =
         mset (stamps ?d) + mset (map (\<lambda>(i, t). (PyStr i, t)) (stamped rest current_id))"
      by blast
    then show ?thesis
      using ts v items st by (simp add: Let_def after_colon_value [OF v])
  next
    case ts_skip
    have np: "\<not> startswith ?line ''Prompt:''" using ts_skip(2) by (rule not_both)
    have wf: "prompts_follow_timestamps True rest"
      using Cons.prems(1) ts_skip by (simp add: Let_def)
    have inv: "loop_inv by_id current_id True"
      using ts_skip(3) by (simp add: loop_inv_def)
    from Cons.IH [OF wf inv] show ?thesis
      using ts_skip np by (simp add: Let_def)
  next
    case pr
    from after_colon_prefix [OF pr(3)] obtain v where v: "after_colon ?line = Inr v" by auto
    let ?k = "PyStr (the current_id)"
    have seen: seen and wf: "prompts_follow_timestamps seen rest"
      using Cons.prems(1) pr by (auto simp: Let_def)
    from Cons.prems(2) pr(4) seen obtain items where
      items: "dict_get by_id ?k = Some items" "items \<noteq> []"
      by (auto simp: loop_inv_def split: option.splits)
    from set_last_prompt_ok [OF items(2), of "strip v"] obtain items' where
      i': "set_last_prompt (strip v) items = Inr items'" "map fst items' = map fst items"
        "items' \<noteq> []" by blast
    let ?d = "dict_set ?k items' by_id"
    have inv: "loop_inv ?d current_id seen"
      using pr(4) i'(3) by (simp add: loop_inv_def dict_get_dict_set)
    have st: "stamps ?d = stamps by_id"
      using stamps_same_times [OF items(1) i'(2)] .
    from Cons.IH [OF wf inv] obtain d where
      "prompts_loop rest ?d current_id = Inr d"
      "mset (stamps d) =
         mset (stamps ?d) + mset (map (\<lambda>(i, t). (PyStr i, t)) (stamped rest current_id))"
      by blast
    then show ?thesis
      using pr v items i' st by (simp add: Let_def)
  next
    case other
    have wf: "prompts_follow_timestamps seen rest"
      using Cons.prems(1) other by (auto simp: Let_def split: if_splits)
    from Cons.IH [OF wf Cons.prems(2)] show ?thesis
      using other by (auto simp add: Let_def)
  qed
qed

lemma prompt_records_stamps:
  "map (\<lambda>r. (map_of r ''employee_id'', map_of r ''timestamp'')) (prompt_records d) =
     map (\<lambda>(k, t). (Some k, Some (PyStr t))) (stamps d)"
  by (induction d) (auto simp: prompt_records_def stamps_def)

lemma flagged_prompts_of_lines_stamped:
  assumes "prompts_follow_timestamps False lines"
  shows "\<exists>out. flagged_prompts_of_lines lines = Inr out \<and>
           mset (map (\<lambda>r. (map_of r ''employee_id'', map_of r ''timestamp'')) out) =
             mset (map (\<lambda>(i, t). (Some (PyStr i), Some (PyStr t))) (stamped lines None)) \<and>
           length out = length (stamped lines None)"
proof -
  have "loop_inv [] None False" by (simp add: loop_inv_def is_current_def)
  from prompts_loop_stamps [OF assms this] obtain d where
    run: "prompts_loop lines [] None = Inr d"
    and st: "mset (stamps d) = mset (map (\<lambda>(i, t). (PyStr i, t)) (stamped lines None))"
    by auto
  have out: "flagged_prompts_of_lines lines = Inr (prompt_records d)"
    by (simp add: flagged_prompts_of_lines_def run)
  have "mset (map (\<lambda>r. (map_of r ''employee_id'', map_of r ''timestamp'')) (prompt_records d)) =
          image_mset (\<lambda>(k, t). (Some k, Some (PyStr t))) (mset (stamps d))"
    by (simp add: prompt_records_stamps)
  also have "\<dots> = mset (map (\<lambda>(i, t). (Some (PyStr i), Some (PyStr t))) (stamped lines None))"
    unfolding st by (simp add: image_mset.compositionality comp_def case_prod_unfold)
  finally have m:
    "mset (map (\<lambda>r. (map_of r ''employee_id'', map_of r ''timestamp'')) (prompt_records d)) =
       mset (map (\<lambda>(i, t). (Some (PyStr i), Some (PyStr t))) (stamped lines None))" .
  from mset_eq_length [OF m] have "length (prompt_records d) = length (stamped lines None)"
    by simp
  with out m show ?thesis by blast
qed

lemma strip_examples:
  "strip ''Employee ID: E1'' = ''Employee ID: E1''"
  "strip ''Timestamp: 09:00'' = ''Timestamp: 09:00''"
  "strip ''Prompt: export all'' = ''Prompt: export all''"
  "strip ''Timestamp: 10:00'' = ''Timestamp: 10:00''"
  "strip '' E1'' = ''E1''" "strip '' 09:00'' = ''09:00''" "strip '' 10:00'' = ''10:00''"
  by (simp_all add: strip_def py_isspace_def)


text \<open>
  \<^verbatim>\<open>readlines\<close> on a text whose lines end in a line feed, for the examples.
\<close>

fun split_lines :: "string \<Rightarrow> string \<Rightarrow> string list" where
  "split_lines acc [] = (if acc = [] then [] else [rev acc])"
| "split_lines acc (c # cs) =
     (if c = CHR 0x0A then rev (c # acc) # split_lines [] cs else split_lines (c # acc) cs)"

definition text_parsers :: parsers where
  "text_parsers = \<lparr>csv_DictReader = (\<lambda>f. Inl ParseError), json_load = (\<lambda>f. Inl ParseError),
                    ET_parse = (\<lambda>f. Inl ParseError), readlines = split_lines []\<rparr>"

definition example_file :: string where
  "example_file =
     ''Employee ID: E1'' @ [CHR 0x0A] @ ''Timestamp: 09:00'' @ [CHR 0x0A] @
     ''Prompt: export all'' @ [CHR 0x0A] @ ''Timestamp: 10:00'' @ [CHR 0x0A]"

lemma lines_of_Line [simp]: "lines_of (map Line xs) = xs"
  by (induction xs) simp_all

lemma extract_flagged_prompts_content:
  "fs path = Content f \<Longrightarrow>
     extract_flagged_prompts ps fs path = ([], flagged_prompts_of_lines (readlines ps f))"
  by (simp add: extract_flagged_prompts_def extract_file_def or_empty_def)

text \<open>
  Claim C10, as the code has it. When every line of the file that starts with
  \<^verbatim>\<open>Prompt:\<close> comes after a line starting with \<^verbatim>\<open>Timestamp:\<close> that follows the
  last line starting with \<^verbatim>\<open>Employee ID:\<close>, \<open>extract_flagged_prompts\<close> completes
  without an error (the last entry of the current identifier is there when a prompt is
  stored). It returns one record for every timestamp line that comes while a non-empty
  identifier is current, tagged with that identifier and holding the timestamp of the
  line, and no other record.
\<close>

theorem extract_flagged_prompts_safe:
  assumes "fs path = Content f"
    and "prompts_follow_timestamps False (readlines ps f)"
  shows "\<exists>out. extract_flagged_prompts ps fs path = ([], Inr out) \<and>
           mset (map (\<lambda>r. (map_of r ''employee_id'', map_of r ''timestamp'')) out) =
             mset (map (\<lambda>(i, t). (Some (PyStr i), Some (PyStr t)))
                    (stamped (readlines ps f) None)) \<and>
           length out = length (stamped (readlines ps f) None)"
  using flagged_prompts_of_lines_stamped [OF assms(2)] extract_flagged_prompts_content [of fs path f ps] assms(1)
  by simp

lemma example_file_lines:
  "readlines text_parsers example_file =
     [''Employee ID: E1'' @ [CHR 0x0A], ''Timestamp: 09:00'' @ [CHR 0x0A],
      ''Prompt: export all'' @ [CHR 0x0A], ''Timestamp: 10:00'' @ [CHR 0x0A]]"
  by (simp add: text_parsers_def example_file_def)

lemma strip_line_feed:
  "strip (''Employee ID: E1'' @ [CHR 0x0A]) = ''Employee ID: E1''"
  "strip (''Timestamp: 09:00'' @ [CHR 0x0A]) = ''Timestamp: 09:00''"
  "strip (''Prompt: export all'' @ [CHR 0x0A]) = ''Prompt: export all''"
  "strip (''Timestamp: 10:00'' @ [CHR 0x0A]) = ''Timestamp: 10:00''"
  by (simp_all add: strip_def py_isspace_def)

lemma example_file_ok:
  "prompts_follow_timestamps False (readlines text_parsers example_file)"
  unfolding example_file_lines
  by (simp add: strip_line_feed startswith_def del: append.simps)

lemma example_file_stamped:
  "stamped (readlines text_parsers example_file) None =
     [(''E1'', ''09:00''), (''E1'', ''10:00'')]"
  unfolding example_file_lines
  by (simp add: strip_line_feed strip_examples startswith_def line_value_def after_colon_def
      is_current_def del: append.simps)

theorem extract_flagged_prompts_safe_witness:
  "\<exists>out. extract_flagged_prompts text_parsers (\<lambda>p. Content example_file)
            ''flagged_prompts.txt'' = ([], Inr out) \<and>
     mset (map (\<lambda>r. (map_of r ''employee_id'', map_of r ''timestamp'')) out) =
       mset [(Some (PyStr ''E1''), Some (PyStr ''09:00'')),
             (Some (PyStr ''E1''), Some (PyStr ''10:00''))] \<and>
     length out = 2"
  using extract_flagged_prompts_safe [of "\<lambda>p. Content example_file" "''flagged_prompts.txt''" example_file
      text_parsers] example_file_ok
  by (simp add: example_file_stamped numeral_2_eq_2)

text \<open>
  A timestamp line before any identifier is passed over: the file has one timestamp
  line and the result has no record.
\<close>

theorem extract_flagged_prompts_unowned_timestamp_counterexample:
  "prompts_follow_timestamps False (readlines text_parsers ''Timestamp: 09:00'') \<and>
   extract_flagged_prompts text_parsers (\<lambda>p. Content ''Timestamp: 09:00'')
     ''flagged_prompts.txt'' = ([], Inr [])"
  by (simp add: text_parsers_def extract_flagged_prompts_def extract_file_def or_empty_def
      strip_examples startswith_def flagged_prompts_of_lines_def is_current_def
      prompt_records_def)

end
